theory Spec2Isabelle
  imports Main
begin

chapter \<open>The question-to-query pipeline of the production agent\<close>

text \<open>
  An embedding of \<^verbatim>\<open>src/mongo_chatbot_2/server/agent.js\<close>: the mapping of defect
  occurrences, the extraction of the component name, the classification of a question,
  the conditions and pipelines built from it, the resolution of the relative periods, and
  the functions that run a question against the store and the language model. Pure
  functions of the source are functions here; what a call does outside the module (the
  store, the model, the clock, the time zone of the host) is a parameter, the record
  \<open>world\<close>, and a function that awaits such calls returns the list of the calls it
  made and either the value it threw or the value it returned.
\<close>

section \<open>JavaScript values\<close>

text \<open>
  The documents of the store carry fields of no fixed type. The few fields the server
  only copies (\<open>description\<close>, \<open>is_acceptable\<close>, \<open>defect_type\<close>) are
  kept as JavaScript values; \<open>truthy\<close> is what \<open>||\<close> and \<open>if\<close> test.
\<close>

datatype jsval = JUndefined | JNull | JBool bool | JNum int | JStr string

fun truthy :: "jsval \<Rightarrow> bool" where
  "truthy JUndefined = False"
| "truthy JNull = False"
| "truthy (JBool b) = b"
| "truthy (JNum n) = (n \<noteq> 0)"
| "truthy (JStr s) = (s \<noteq> [])"

text \<open>\<open>a || b\<close>\<close>

definition js_or :: "jsval \<Rightarrow> jsval \<Rightarrow> jsval" where
  "js_or a b = (if truthy a then a else b)"

text \<open>
  The decimal rendering of a non-negative integer, as a template literal
  \<open>`${n}`\<close> renders it.
\<close>

definition digit_char :: "nat \<Rightarrow> char" where
  "digit_char d = ''0123456789'' ! d"

function string_of_nat :: "nat \<Rightarrow> string" where
  "string_of_nat n =
     (if n < 10 then [digit_char n] else string_of_nat (n div 10) @ [digit_char (n mod 10)])"
  by pat_completeness auto
termination
  by (relation "measure id") auto

declare string_of_nat.simps [simp del]

section \<open>The defect catalog: \<open>mapDefectOccurrences\<close> (agent.js, lines 81-108)\<close>

text \<open>
  One entry of \<open>defectMap\<close>, as \<open>getDefectInfo\<close> builds it. \<open>defect_class\<close> is
  used as a property key, so it is the string the key is.
\<close>

record defect_info =
  defect_class :: string
  description :: jsval
  is_acceptable :: jsval
  defect_type :: jsval

text \<open>One value of the object \<open>mappedDefects\<close>.\<close>

record mapped_defect =
  count :: int
  m_description :: jsval
  m_is_acceptable :: jsval
  m_defect_type :: jsval

type_synonym defect_map = "nat \<rightharpoonup> defect_info"
type_synonym mapped_defects = "string \<rightharpoonup> mapped_defect"

text \<open>
  The assignment \<open>obj[key] = value\<close> of an object to a property of a plain object;
  the maps of this section are the own properties of such an object, which are what
  \<open>JSON.stringify\<close> prints. Every key but one becomes an own property, or has its
  value replaced. The key \<open>__proto__\<close> is the accessor that \<open>Object.prototype\<close>
  hands down: assigning an object to it replaces the prototype of \<open>obj\<close> and adds no
  own property. (The new prototype is a plain object whose properties are writable data
  properties, so the assignments that follow behave as before.)
\<close>

definition set_property :: "(string \<rightharpoonup> 'a) \<Rightarrow> string \<Rightarrow> 'a \<Rightarrow> (string \<rightharpoonup> 'a)" where
  "set_property obj key v = (if key = ''__proto__'' then obj else obj(key \<mapsto> v))"

text \<open>
  The body of the \<open>forEach\<close> callback for one \<open>(count, index)\<close>: the object
  \<open>mappedDefects\<close> is passed in and returned updated.
\<close>

definition mapDefect_step ::
  "defect_map \<Rightarrow> jsval \<Rightarrow> int \<Rightarrow> nat \<Rightarrow> mapped_defects \<Rightarrow> mapped_defects" where
  "mapDefect_step defectMap defectType cnt index mappedDefects =
     (let defectId = index + 1 in
      case defectMap defectId of
        Some defectInfo \<Rightarrow>
          if 0 < cnt then
            set_property mappedDefects (defect_class defectInfo)
              \<lparr>count = cnt,
               m_description = description defectInfo,
               m_is_acceptable = is_acceptable defectInfo,
               m_defect_type = js_or defectType (defect_type defectInfo)\<rparr>
          else mappedDefects
      | None \<Rightarrow>
          if 0 < cnt then
            set_property mappedDefects (''Unknown_Defect_'' @ string_of_nat defectId)
              \<lparr>count = cnt,
               m_description = JStr (''Unknown defect with ID '' @ string_of_nat defectId),
               m_is_acceptable = JStr ''unknown'',
               m_defect_type = js_or defectType (JStr ''unknown'')\<rparr>
          else mappedDefects)"

text \<open>\<open>forEach\<close> over the array from index \<open>index\<close> on.\<close>

fun mapDefect_loop ::
  "defect_map \<Rightarrow> jsval \<Rightarrow> nat \<Rightarrow> int list \<Rightarrow> mapped_defects \<Rightarrow> mapped_defects" where
  "mapDefect_loop defectMap defectType index [] mappedDefects = mappedDefects"
| "mapDefect_loop defectMap defectType index (cnt # rest) mappedDefects =
     mapDefect_loop defectMap defectType (Suc index) rest
       (mapDefect_step defectMap defectType cnt index mappedDefects)"

text \<open>
  \<open>defectOccurrences\<close> is \<open>None\<close> when the value is not an array (an array is
  always truthy, so the guard \<open>defectOccurrences && Array.isArray(defectOccurrences)\<close>
  is the array test). The counts are integers, and \<open>defectMap\<close> is read at the ids
  \<open>index + 1\<close>, which are positive integers; its values are objects, which are truthy.
\<close>

definition mapDefectOccurrences ::
  "int list option \<Rightarrow> defect_map \<Rightarrow> jsval \<Rightarrow> mapped_defects" where
  "mapDefectOccurrences defectOccurrences defectMap defectType =
     (case defectOccurrences of
        None \<Rightarrow> Map.empty
      | Some counts \<Rightarrow> mapDefect_loop defectMap defectType 0 counts Map.empty)"

text \<open>
  The key and the value the callback writes for index \<open>i\<close> with count \<open>c\<close>,
  read off \<open>mapDefect_step\<close>.
\<close>

definition defect_label :: "defect_map \<Rightarrow> nat \<Rightarrow> string" where
  "defect_label defectMap i =
     (case defectMap (i + 1) of
        Some defectInfo \<Rightarrow> defect_class defectInfo
      | None \<Rightarrow> ''Unknown_Defect_'' @ string_of_nat (i + 1))"

definition defect_entry :: "defect_map \<Rightarrow> jsval \<Rightarrow> nat \<Rightarrow> int \<Rightarrow> mapped_defect" where
  "defect_entry defectMap defectType i c =
     (case defectMap (i + 1) of
        Some defectInfo \<Rightarrow>
          \<lparr>count = c,
           m_description = description defectInfo,
           m_is_acceptable = is_acceptable defectInfo,
           m_defect_type = js_or defectType (defect_type defectInfo)\<rparr>
      | None \<Rightarrow>
          \<lparr>count = c,
           m_description = JStr (''Unknown defect with ID '' @ string_of_nat (i + 1)),
           m_is_acceptable = JStr ''unknown'',
           m_defect_type = js_or defectType (JStr ''unknown'')\<rparr>)"

section \<open>Strings\<close>

text \<open>
  A string is a list of characters (bytes). Case mapping and the character classes are
  the ASCII ones: that is all \<open>toLowerCase\<close>, the \<open>i\<close> flag (without the
  \<open>u\<close> flag) and \<open>\w\<close>, \<open>\d\<close> do on ASCII text. A character beyond ASCII
  is kept as it is and matches no character of an expression of the server; what
  JavaScript does with some of them (the spaces and line terminators beyond ASCII in
  \<open>\s\<close>, \<open>.\<close> and \<open>trim\<close>, the lower case of letters beyond ASCII) is not
  part of the model.
\<close>

definition to_lower :: "char \<Rightarrow> char" where
  "to_lower c =
     (case map_of (zip ''ABCDEFGHIJKLMNOPQRSTUVWXYZ'' ''abcdefghijklmnopqrstuvwxyz'') c of
        Some l \<Rightarrow> l
      | None \<Rightarrow> c)"

definition to_upper :: "char \<Rightarrow> char" where
  "to_upper c =
     (case map_of (zip ''abcdefghijklmnopqrstuvwxyz'' ''ABCDEFGHIJKLMNOPQRSTUVWXYZ'') c of
        Some u \<Rightarrow> u
      | None \<Rightarrow> c)"

text \<open>\<open>s.toLowerCase()\<close>\<close>

definition toLowerCase :: "string \<Rightarrow> string" where
  "toLowerCase s = map to_lower s"

definition is_digit :: "char \<Rightarrow> bool" where
  "is_digit c = (c \<in> set ''0123456789'')"

definition is_word :: "char \<Rightarrow> bool" where
  "is_word c =
     (c \<in> set ''abcdefghijklmnopqrstuvwxyzABCDEFGHIJKLMNOPQRSTUVWXYZ0123456789_'')"

definition is_space :: "char \<Rightarrow> bool" where
  "is_space c = (c \<in> set [CHR '' '', CHR 0x09, CHR 0x0A, CHR 0x0B, CHR 0x0C, CHR 0x0D])"

text \<open>
  The canonical form two characters are compared in: upper case under the \<open>i\<close>
  flag, the character itself otherwise.
\<close>

definition canon :: "bool \<Rightarrow> char \<Rightarrow> char" where
  "canon ci c = (if ci then to_upper c else c)"

text \<open>\<open>w\<close> is a prefix of \<open>s\<close>, compared in canonical form.\<close>

fun pre :: "bool \<Rightarrow> string \<Rightarrow> string \<Rightarrow> bool" where
  "pre ci [] s = True"
| "pre ci (a # w) [] = False"
| "pre ci (a # w) (c # s) = (canon ci a = canon ci c \<and> pre ci w s)"

text \<open>\<open>s.includes(sub)\<close>\<close>

fun str_includes :: "string \<Rightarrow> string \<Rightarrow> bool" where
  "str_includes [] sub = (sub = [])"
| "str_includes (c # s) sub = (pre False sub (c # s) \<or> str_includes s sub)"

text \<open>\<open>s.trim()\<close>\<close>

definition trim :: "string \<Rightarrow> string" where
  "trim s = rev (dropWhile is_space (rev (dropWhile is_space s)))"

text \<open>\<open>parseInt\<close> of a string of decimal digits, as the exact number.\<close>

definition digit_value :: "char \<Rightarrow> nat" where
  "digit_value c = (case map_of (zip ''0123456789'' [0, 1, 2, 3, 4, 5, 6, 7, 8, 9]) c of
                      Some d \<Rightarrow> d
                    | None \<Rightarrow> 0)"

definition parseInt :: "string \<Rightarrow> nat" where
  "parseInt s = foldl (\<lambda>n c. 10 * n + digit_value c) 0 (takeWhile is_digit s)"

section \<open>Regular expressions\<close>

text \<open>
  The regular expressions of the server, as terms, and a backtracking matcher for them.
  \<open>Str w\<close> is a run of literal characters, \<open>Set\<close> and \<open>NotSet\<close> are the
  classes \<open>[...]\<close> and \<open>[^...]\<close> (of characters, \<open>\w\<close>, \<open>\d\<close>, \<open>\s\<close> and
  \<open>\S\<close>), \<open>Dot\<close> is \<open>.\<close> (any character but a line
  terminator), \<open>Star\<close> is the greedy \<open>*\<close>, \<open>LazyStar\<close> is \<open>*?\<close>,
  \<open>Group n\<close> is the \<open>n\<close>-th capturing group and \<open>WordB\<close> is \<open>\b\<close>.
\<close>

datatype citem = Chr char | WordC | DigitC | SpaceC | NotSpaceC

fun in_item :: "bool \<Rightarrow> citem \<Rightarrow> char \<Rightarrow> bool" where
  "in_item ci (Chr a) c = (canon ci a = canon ci c)"
| "in_item ci WordC c = is_word c"
| "in_item ci DigitC c = is_digit c"
| "in_item ci SpaceC c = is_space c"
| "in_item ci NotSpaceC c = (\<not> is_space c)"

datatype rx =
    Str string
  | Set "citem list"
  | NotSet "citem list"
  | Dot
  | Seq rx rx
  | Alt rx rx
  | Star rx
  | LazyStar rx
  | Group nat rx
  | WordB

text \<open>
  A state of the matcher: the text still to read and the captures made so far (the
  latest first).
\<close>

type_synonym mstate = "string \<times> (nat \<times> string) list"

text \<open>
  \<open>\b\<close> at the point of \<open>inp\<close> where \<open>s\<close> remains: exactly one of the character
  before and the character after is a word character.
\<close>

definition at_boundary :: "string \<Rightarrow> string \<Rightarrow> bool" where
  "at_boundary inp s =
     (let k = length inp - length s;
          word_before = (if k = 0 then False else is_word (inp ! (k - 1)));
          word_after = (case s of [] \<Rightarrow> False | c # _ \<Rightarrow> is_word c)
      in word_before \<noteq> word_after)"

text \<open>
  \<open>rx_run ci inp r st\<close> lists the states in which \<open>r\<close> can end when started in
  \<open>st\<close>, in the order backtracking tries them: the first alternative before the
  second, the longer repetition before the shorter for \<open>*\<close> and the shorter first
  for \<open>*?\<close>. An iteration of a repetition that reads nothing is rejected, as
  ECMAScript does.
\<close>

function rx_run :: "bool \<Rightarrow> string \<Rightarrow> rx \<Rightarrow> mstate \<Rightarrow> mstate list" where
  "rx_run ci inp (Str w) (s, g) = (if pre ci w s then [(drop (length w) s, g)] else [])"
| "rx_run ci inp (Set cs) (s, g) =
     (case s of
        [] \<Rightarrow> []
      | c # t \<Rightarrow> if list_ex (\<lambda>i. in_item ci i c) cs then [(t, g)] else [])"
| "rx_run ci inp (NotSet cs) (s, g) =
     (case s of
        [] \<Rightarrow> []
      | c # t \<Rightarrow> if list_ex (\<lambda>i. in_item ci i c) cs then [] else [(t, g)])"
| "rx_run ci inp Dot (s, g) =
     (case s of
        [] \<Rightarrow> []
      | c # t \<Rightarrow> if c = CHR 0x0A \<or> c = CHR 0x0D then [] else [(t, g)])"
| "rx_run ci inp (Seq a b) st = concat (map (rx_run ci inp b) (rx_run ci inp a st))"
| "rx_run ci inp (Alt a b) st = rx_run ci inp a st @ rx_run ci inp b st"
| "rx_run ci inp (Star a) st =
     concat (map (\<lambda>st'. if length (fst st') < length (fst st)
                          then rx_run ci inp (Star a) st' else [])
                 (rx_run ci inp a st)) @ [st]"
| "rx_run ci inp (LazyStar a) st =
     st # concat (map (\<lambda>st'. if length (fst st') < length (fst st)
                               then rx_run ci inp (LazyStar a) st' else [])
                      (rx_run ci inp a st))"
| "rx_run ci inp (Group n a) (s, g) =
     map (\<lambda>(s', g'). (s', (n, take (length s - length s') s) # g')) (rx_run ci inp a (s, g))"
| "rx_run ci inp WordB (s, g) = (if at_boundary inp s then [(s, g)] else [])"
  by pat_completeness auto
termination
  by (relation "measures [\<lambda>(ci, inp, r, st). size r, \<lambda>(ci, inp, r, st). length (fst st)]")
     auto

text \<open>
  The result of \<open>String.prototype.match\<close> without the \<open>g\<close> flag: the matched
  text and the captures. The search takes the leftmost start that matches and there the
  first way backtracking finds.
\<close>

type_synonym rmatch = "string \<times> (nat \<times> string) list"

fun rx_search :: "bool \<Rightarrow> string \<Rightarrow> rx \<Rightarrow> string \<Rightarrow> rmatch option" where
  "rx_search ci inp r [] =
     (case rx_run ci inp r ([], []) of
        [] \<Rightarrow> None
      | (s', g) # _ \<Rightarrow> Some ([], g))"
| "rx_search ci inp r (c # t) =
     (case rx_run ci inp r (c # t, []) of
        [] \<Rightarrow> rx_search ci inp r t
      | (s', g) # _ \<Rightarrow> Some (take (length (c # t) - length s') (c # t), g))"

text \<open>\<open>s.match(r)\<close>; \<open>ci\<close> is the \<open>i\<close> flag.\<close>

definition rx_match :: "bool \<Rightarrow> rx \<Rightarrow> string \<Rightarrow> rmatch option" where
  "rx_match ci r s = rx_search ci s r s"

text \<open>\<open>r.test(s)\<close>, and the truth value of \<open>s.match(r)\<close>.\<close>

definition rx_test :: "bool \<Rightarrow> rx \<Rightarrow> string \<Rightarrow> bool" where
  "rx_test ci r s = (rx_match ci r s \<noteq> None)"

text \<open>
  \<open>m[n]\<close> for \<open>n \<ge> 1\<close>: \<open>None\<close> is \<open>undefined\<close>. \<open>group m n\<close> reads a
  group that takes part in every match of its expression.
\<close>

definition capture :: "rmatch \<Rightarrow> nat \<Rightarrow> string option" where
  "capture m n = map_of (snd m) n"

definition group :: "rmatch \<Rightarrow> nat \<Rightarrow> string" where
  "group m n = (case capture m n of Some s \<Rightarrow> s | None \<Rightarrow> [])"

text \<open>\<open>r1|r2|...|rn\<close>, and \<open>r+\<close>.\<close>

fun alt_of :: "rx list \<Rightarrow> rx" where
  "alt_of [] = Str []"
| "alt_of [r] = r"
| "alt_of (r # rs) = Alt r (alt_of rs)"

definition OneOrMore :: "rx \<Rightarrow> rx" where
  "OneOrMore r = Seq r (Star r)"

text \<open>\<open>w1|w2|...|wn\<close> for literal words.\<close>

definition words :: "string list \<Rightarrow> rx" where
  "words ws = alt_of (map Str ws)"
section \<open>\<open>extractComponentName\<close> (agent.js, lines 352-372)\<close>

text \<open>
  The three expressions \<open>/'([^']+)'/\<close>, \<open>/"([^"]+)"/\<close> and \<open>/\*([^*]+)\*/\<close>
  are \<open>delimited q\<close> for the quote, the double quote and the asterisk.
\<close>

definition delimited :: "char \<Rightarrow> rx" where
  "delimited q = Seq (Str [q]) (Seq (Group 1 (OneOrMore (NotSet [Chr q]))) (Str [q]))"

definition extractComponentName :: "string \<Rightarrow> string option" where
  "extractComponentName query =
     (case rx_match False (delimited (CHR 0x27)) query of
        Some singleQuoteMatch \<Rightarrow> capture singleQuoteMatch 1
      | None \<Rightarrow>
         (case rx_match False (delimited (CHR 0x22)) query of
            Some doubleQuoteMatch \<Rightarrow> capture doubleQuoteMatch 1
          | None \<Rightarrow>
             (case rx_match False (delimited (CHR ''*'')) query of
                Some asteriskMatch \<Rightarrow> capture asteriskMatch 1
              | None \<Rightarrow> None)))"

section \<open>\<open>analyzeQuery\<close> (agent.js, lines 375-386)\<close>

record query_analysis =
  isBatchQuery :: bool
  isNGQuery :: bool
  needsAggregation :: bool
  isComparative :: bool
  isComponentList :: bool
  isGeneralQuery :: bool

text \<open>\<open>[\w_:\-]\<close>\<close>

definition id_chars :: "citem list" where
  "id_chars = [WordC, Chr (CHR ''_''), Chr (CHR '':''), Chr (CHR ''-'')]"

definition analyzeQuery :: "string \<Rightarrow> query_analysis" where
  "analyzeQuery query =
     (let lowerQuery = toLowerCase query in
      \<lparr>isBatchQuery =
         rx_test True
           (Seq (Str ''batch'') (Seq (Star Dot) (Seq (Str ''id'') (Seq (Star Dot)
              (OneOrMore (Set id_chars))))))
           query,
       isNGQuery = rx_test True (words [''ng'', ''not good'', ''defect'', ''reject'']) lowerQuery,
       needsAggregation =
         rx_test True
           (words [''most'', ''max'', ''maximum'', ''highest'', ''lowest'', ''min'', ''minimum'',
                   ''average'', ''sum'', ''total''])
           lowerQuery,
       isComparative =
         rx_test True (words [''more'', ''less'', ''greater'', ''than'', ''compare'']) lowerQuery,
       isComponentList =
         rx_test True
           (alt_of [Str ''component'', Str ''part'',
                    Seq (Str ''what'') (Seq (Star Dot) (Str ''component'')),
                    Seq (Str ''which'') (Seq (Star Dot) (Str ''component'')),
                    Seq (Str ''list'') (Seq (Star Dot) (Str ''component''))])
           lowerQuery,
       isGeneralQuery =
         rx_test True
           (alt_of [Seq (Str ''what'') (Seq (Star Dot) (Str ''data'')),
                    Seq (Str ''which'') (Seq (Star Dot) (Str ''data'')),
                    Seq (Str ''available'') (Seq (Star Dot) (Str ''data'')),
                    Seq (Str ''have'') (Seq (Star Dot) (Str ''data''))])
           lowerQuery\<rparr>)"

section \<open>Dates: \<open>getDateFilter\<close> (agent.js, lines 514-564)\<close>

text \<open>
  A \<open>Date\<close> is its time value, the milliseconds since the epoch in UTC. The day and
  time arithmetic of ECMAScript (\<open>MakeDay\<close>, \<open>MakeTime\<close>, \<open>MakeDate\<close>) is done
  on local time values, and the host's time zone turns the one into the other. Division
  is the floor division of the standard. Time values are taken within the range of
  \<open>Date\<close>, where \<open>TimeClip\<close> changes nothing.
\<close>

definition msPerDay :: int where
  "msPerDay = 86400000"

definition DayFromYear :: "int \<Rightarrow> int" where
  "DayFromYear y = 365 * (y - 1970) + (y - 1969) div 4 - (y - 1901) div 100 + (y - 1601) div 400"

definition InLeapYear :: "int \<Rightarrow> bool" where
  "InLeapYear y = (y mod 4 = 0 \<and> (y mod 100 \<noteq> 0 \<or> y mod 400 = 0))"

text \<open>The day of the year on which month \<open>mn\<close> (0 to 11) starts.\<close>

definition month_start :: "bool \<Rightarrow> int \<Rightarrow> int" where
  "month_start leap mn =
     [0, 31, 59, 90, 120, 151, 181, 212, 243, 273, 304, 334] ! nat mn +
     (if leap \<and> 2 \<le> mn then 1 else 0)"

definition MakeDay :: "int \<Rightarrow> int \<Rightarrow> int \<Rightarrow> int" where
  "MakeDay year month dt =
     (let ym = year + month div 12; mn = month mod 12
      in DayFromYear ym + month_start (InLeapYear ym) mn + dt - 1)"

definition MakeTime :: "int \<Rightarrow> int \<Rightarrow> int \<Rightarrow> int \<Rightarrow> int" where
  "MakeTime hour minute sec ms = hour * 3600000 + minute * 60000 + sec * 1000 + ms"

definition MakeDate :: "int \<Rightarrow> int \<Rightarrow> int" where
  "MakeDate day time = day * msPerDay + time"

text \<open>
  The time zone of the host, by the two offsets (in milliseconds) the standard takes from
  it: \<open>tza_utc t\<close> is the offset in force at the instant \<open>t\<close>, and
  \<open>tza_local t\<close> is the offset by which the host reads the local time value \<open>t\<close>.
  Where a transition of the zone skips a local time, or repeats it, the host still
  answers with one offset (the standard asks for the offset before the transition, so
  that a skipped 00:00 is read as the instant that shows 01:00). Nothing is assumed of
  the two functions.
\<close>

record time_zone =
  tza_utc :: "int \<Rightarrow> int"
  tza_local :: "int \<Rightarrow> int"

text \<open>\<open>LocalTime(t)\<close> and \<open>UTC(t)\<close> of the standard.\<close>

definition LocalTime :: "time_zone \<Rightarrow> int \<Rightarrow> int" where
  "LocalTime z t = t + tza_utc z t"

definition UTC :: "time_zone \<Rightarrow> int \<Rightarrow> int" where
  "UTC z t = t - tza_local z t"

text \<open>
  \<open>new Date(year, month, date, hours, minutes, seconds, ms)\<close>: the fields are local,
  and a year from 0 to 99 stands for 1900 + year.
\<close>

definition new_Date ::
  "time_zone \<Rightarrow> int \<Rightarrow> int \<Rightarrow> int \<Rightarrow> int \<Rightarrow> int \<Rightarrow> int \<Rightarrow> int \<Rightarrow> int" where
  "new_Date z year month dt hours minutes seconds ms =
     (let yr = (if 0 \<le> year \<and> year \<le> 99 then 1900 + year else year)
      in UTC z (MakeDate (MakeDay yr month dt) (MakeTime hours minutes seconds ms)))"

text \<open>
  \<open>d.getDay()\<close>, and the setters. Each reads the local time of the time value, changes
  a field and goes back through the zone: \<open>d.setDate(d.getDate() + k)\<close> moves the local
  day by \<open>k\<close> and keeps the local time within the day (\<open>MakeDay\<close> is linear in the
  date); \<open>d.setMilliseconds(v)\<close> replaces the millisecond of the local time;
  \<open>d.setHours(h, m, s, ms)\<close> replaces the local time within the day.
\<close>

definition getDay :: "time_zone \<Rightarrow> int \<Rightarrow> int" where
  "getDay z t = (LocalTime z t div msPerDay + 4) mod 7"

definition setDate_by :: "time_zone \<Rightarrow> int \<Rightarrow> int \<Rightarrow> int" where
  "setDate_by z t k = UTC z (LocalTime z t + k * msPerDay)"

definition setMilliseconds :: "time_zone \<Rightarrow> int \<Rightarrow> int \<Rightarrow> int" where
  "setMilliseconds z t v = (let lt = LocalTime z t in UTC z (lt - lt mod 1000 + v))"

definition setHours :: "time_zone \<Rightarrow> int \<Rightarrow> int \<Rightarrow> int \<Rightarrow> int \<Rightarrow> int \<Rightarrow> int" where
  "setHours z t hours minutes seconds ms =
     UTC z (MakeDate (LocalTime z t div msPerDay) (MakeTime hours minutes seconds ms))"

text \<open>
  The reading of the clock, \<open>new Date()\<close>, by its local fields: what
  \<open>getFullYear()\<close>, \<open>getMonth()\<close> (0 to 11), \<open>getDate()\<close> and the time getters
  return.
\<close>

record local_time =
  lt_year :: int
  lt_month :: int
  lt_date :: int
  lt_hours :: int
  lt_minutes :: int
  lt_seconds :: int
  lt_ms :: int

text \<open>
  The local time value of the reading: the current instant is a time value \<open>t\<close> with
  \<open>LocalTime z t = local_value now\<close>.
\<close>

definition local_value :: "local_time \<Rightarrow> int" where
  "local_value now =
     MakeDate (MakeDay (lt_year now) (lt_month now) (lt_date now))
       (MakeTime (lt_hours now) (lt_minutes now) (lt_seconds now) (lt_ms now))"

text \<open>The object \<open>{ $gte: a, $lte: b }\<close>: both bounds belong to the range.\<close>

record date_filter =
  gte :: int
  lte :: int

text \<open>
  \<open>getDateFilter\<close>, in the zone \<open>z\<close> of the host and at the reading \<open>now\<close> of
  the clock. The result is the own property of \<open>filters\<close> under the lowered period;
  \<open>parseQuery\<close>, its one caller, passes one of the six keys.
\<close>

definition getDateFilter :: "time_zone \<Rightarrow> local_time \<Rightarrow> string \<Rightarrow> date_filter option" where
  "getDateFilter z now period =
     (let startOfDay = new_Date z (lt_year now) (lt_month now) (lt_date now) 0 0 0 0;
          endOfDay = new_Date z (lt_year now) (lt_month now) (lt_date now) 23 59 59 999;
          startOfYesterday = setDate_by z startOfDay (- 1);
          endOfYesterday = setMilliseconds z startOfDay (- 1);
          startOfWeek = setDate_by z startOfDay (- getDay z startOfDay);
          startOfLastWeek = setDate_by z startOfWeek (- 7);
          endOfLastWeek = setMilliseconds z startOfWeek (- 1);
          startOfMonth = new_Date z (lt_year now) (lt_month now) 1 0 0 0 0;
          startOfLastMonth = new_Date z (lt_year now) (lt_month now - 1) 1 0 0 0 0;
          endOfLastMonth = new_Date z (lt_year now) (lt_month now) 0 23 59 59 999;
          filters =
            [(''today'', \<lparr>gte = startOfDay, lte = endOfDay\<rparr>),
             (''yesterday'', \<lparr>gte = startOfYesterday, lte = endOfYesterday\<rparr>),
             (''this week'', \<lparr>gte = startOfWeek, lte = endOfDay\<rparr>),
             (''last week'', \<lparr>gte = startOfLastWeek, lte = endOfLastWeek\<rparr>),
             (''this month'', \<lparr>gte = startOfMonth, lte = endOfDay\<rparr>),
             (''last month'', \<lparr>gte = startOfLastMonth, lte = endOfLastMonth\<rparr>)]
      in map_of filters (toLowerCase period))"
section \<open>\<open>parseQuery\<close> (agent.js, lines 403-478)\<close>

text \<open>The predicates on one field that the server writes.\<close>

text \<open>
  \<open>Equals s\<close> is the plain value \<open>s\<close>, \<open>RegexI s\<close> is
  \<open>{ $regex: s, $options: "i" }\<close>, \<open>ExistsGt n\<close> is \<open>{ $exists: true, $gt: n }\<close>,
  \<open>ExistsNotNull\<close> is \<open>{ $exists: true, $ne: null }\<close> and \<open>AtLeast n\<close> is
  \<open>{ $gte: n }\<close>.
\<close>

datatype cond = Equals string | RegexI string | ExistsGt int | ExistsNotNull | AtLeast nat

text \<open>
  The object \<open>conditions\<close>: a field is \<open>None\<close> while its key is absent.
  \<open>q_or\<close> is the key \<open>$or\<close>, a list of one-field objects.
\<close>

record conditions =
  q_batch_id :: "cond option"
  q_component_name :: "cond option"
  q_date :: "date_filter option"
  q_ng_parts :: "cond option"
  q_or :: "(string \<times> cond) list option"

definition no_conditions :: conditions where
  "no_conditions =
     \<lparr>q_batch_id = None, q_component_name = None, q_date = None, q_ng_parts = None,
      q_or = None\<rparr>"

text \<open>The expressions of \<open>parseQuery\<close>, all with the \<open>i\<close> flag.\<close>

definition rx_batchMatch :: rx where
  "rx_batchMatch =
     Seq (Group 1 (words [''batch'', ''lot'']))
       (Seq (Star (Set [Chr (CHR '':''), SpaceC])) (Group 2 (OneOrMore (Set id_chars))))"

definition rx_componentMatch :: rx where
  "rx_componentMatch =
     Seq (Group 1 (words [''component'', ''part'']))
       (Seq (Star (Set [Chr (CHR '':''), SpaceC]))
            (Group 2 (OneOrMore (Set [WordC, Chr (CHR ''_'')]))))"

definition relative_periods :: "string list" where
  "relative_periods =
     [''today'', ''yesterday'', ''this week'', ''last week'', ''this month'', ''last month'']"

definition rx_relativeDate :: rx where
  "rx_relativeDate = Group 1 (words relative_periods)"

text \<open>\<open>/\b(\d{2}[_\/\-]\d{2}[_\/\-]\d{4})\b/i\<close>\<close>

definition rx_absoluteDate :: rx where
  "rx_absoluteDate =
     (let d = Set [DigitC]; sep = Set [Chr (CHR ''_''), Chr (CHR ''/''), Chr (CHR ''-'')]
      in Seq WordB
           (Seq (Group 1
                   (Seq d (Seq d (Seq sep (Seq d (Seq d (Seq sep (Seq d (Seq d (Seq d d))))))))))
                WordB))"

definition rx_production :: rx where
  "rx_production =
     Seq (Group 1 (words [''production'', ''quantity'']))
       (Seq (LazyStar (Set [SpaceC, NotSpaceC])) (Group 2 (OneOrMore (Set [DigitC]))))"

text \<open>
  \<open>parseQuery\<close>. Three things come from outside: \<open>z\<close> is the time zone of the
  host, \<open>date_parse\<close> is \<open>new Date(string)\<close> on a text that is not in the ISO
  format, which each engine reads in its own way (\<open>None\<close> is the invalid date), and
  \<open>now\<close> is the reading of the clock that \<open>getDateFilter\<close> takes.
\<close>

definition parseQuery ::
  "time_zone \<Rightarrow> (string \<Rightarrow> int option) \<Rightarrow> local_time \<Rightarrow> string \<Rightarrow> conditions" where
  "parseQuery z date_parse now query =
     (let queryAnalysis = analyzeQuery query;
          conditions = no_conditions;
          conditions =
            (case rx_match True rx_batchMatch query of
               None \<Rightarrow> conditions
             | Some batchMatch \<Rightarrow>
                (case capture batchMatch 2 of
                   None \<Rightarrow> conditions
                 | Some b \<Rightarrow>
                    if b = [] then conditions
                    else
                      (let batchId = trim b in
                       if str_includes batchId ''_'' \<or> str_includes batchId '':'' \<or>
                          str_includes batchId ''-''
                       then conditions\<lparr>q_batch_id := Some (Equals batchId)\<rparr>
                       else conditions\<lparr>q_batch_id := Some (RegexI batchId)\<rparr>)));
          conditions =
            (case rx_match True rx_componentMatch query of
               None \<Rightarrow> conditions
             | Some componentMatch \<Rightarrow>
                conditions\<lparr>q_component_name :=
                  Some (RegexI (group componentMatch 2))\<rparr>);
          relativeDateMatch = rx_match True rx_relativeDate query;
          absoluteDateMatch = rx_match True rx_absoluteDate query;
          conditions =
            (case relativeDateMatch of
               Some m \<Rightarrow>
                conditions\<lparr>q_date :=
                  getDateFilter z now (group m 1)\<rparr>
             | None \<Rightarrow>
                (case absoluteDateMatch of
                   None \<Rightarrow> conditions
                 | Some m \<Rightarrow>
                    let dateStr =
                          map (\<lambda>c. if c = CHR ''_'' then CHR ''-'' else c) (group m 1)
                    in (case date_parse dateStr of
                          None \<Rightarrow> conditions
                        | Some dateObj \<Rightarrow>
                           (let startOfDay = setHours z dateObj 0 0 0 0;
                                endOfDay = setHours z startOfDay 23 59 59 999
                            in conditions\<lparr>q_date :=
                                 Some \<lparr>gte = startOfDay, lte = endOfDay\<rparr>\<rparr>))));
          conditions =
            (if isNGQuery queryAnalysis
             then conditions\<lparr>q_ng_parts := Some (ExistsGt 0)\<rparr>
             else conditions);
          conditions =
            (if rx_test True (words [''performance'', ''efficiency'', ''quality'']) query
             then conditions\<lparr>q_or :=
                    Some [(''performance'', ExistsNotNull), (''quality'', ExistsNotNull)]\<rparr>
             else conditions);
          conditions =
            (case rx_match True rx_production query of
               None \<Rightarrow> conditions
             | Some productionMatch \<Rightarrow>
                (let n = parseInt (group productionMatch 2)
                 in conditions\<lparr>q_or :=
                      Some [(''actual_production'', AtLeast n),
                            (''planned_quantity'', AtLeast n)]\<rparr>))
      in if isGeneralQuery queryAnalysis \<or> isComponentList queryAnalysis
         then no_conditions
         else conditions)"

section \<open>\<open>handleAggregationQuery\<close> (agent.js, lines 480-512)\<close>

datatype accumulator = SumOf_1 | SumOf string | MaxOf string

text \<open>
  The stages: \<open>Match\<close> is \<open>{ $match: { field: cond, ... } }\<close>, \<open>GroupBy e accs\<close> is
  \<open>{ $group: { _id: e, name: accumulator, ... } }\<close> with the accumulators
  \<open>{ $sum: 1 }\<close>, \<open>{ $sum: e }\<close> and \<open>{ $max: e }\<close>, \<open>Sort f d\<close> is
  \<open>{ $sort: { f: d } }\<close> and \<open>Limit n\<close> is \<open>{ $limit: n }\<close>.
\<close>

datatype stage =
    Match "(string \<times> cond) list"
  | GroupBy string "(string \<times> accumulator) list"
  | Sort string int
  | Limit nat

text \<open>The pipeline \<open>handleAggregationQuery\<close> hands to \<open>collection.aggregate\<close>.\<close>

definition aggregation_pipeline :: "query_analysis \<Rightarrow> stage list" where
  "aggregation_pipeline queryAnalysis =
     (if isNGQuery queryAnalysis then
        [Match [(''ng_parts'', ExistsGt 0)], Sort ''ng_parts'' (- 1), Limit 10]
      else if isComponentList queryAnalysis then
        [GroupBy ''$component_name''
           [(''total_batches'', SumOf_1),
            (''total_production'', SumOf ''$actual_production''),
            (''latest_date'', MaxOf ''$date'')],
         Sort ''total_production'' (- 1)]
      else if needsAggregation queryAnalysis then
        [Sort ''actual_production'' (- 1), Limit 10]
      else
        [Sort ''date'' (- 1), Limit 20])"
section \<open>The store, the language model and the effects of a call\<close>

text \<open>
  What is thrown. JavaScript lets any value be thrown, and a promise be rejected with any
  value, and the \<open>catch\<close> blocks read \<open>error.message\<close>. \<open>Thrown v\<close> is a thrown
  value other than \<open>null\<close> and \<open>undefined\<close>, where \<open>v\<close> is the value of its
  property \<open>message\<close> (\<open>JUndefined\<close> when it has none, as a thrown string has none);
  \<open>ThrownNull\<close> and \<open>ThrownUndefined\<close> are a thrown \<open>null\<close> and a thrown
  \<open>undefined\<close>. \<open>Error m\<close> is the usual case, an \<open>Error\<close> object with the
  message \<open>m\<close>.
\<close>

datatype js_error = Thrown jsval | ThrownNull | ThrownUndefined

abbreviation Error :: "string \<Rightarrow> js_error" where
  "Error m \<equiv> Thrown (JStr m)"

text \<open>\<open>`${v}`\<close>: the text of a value in a template literal.\<close>

fun to_text :: "jsval \<Rightarrow> string" where
  "to_text JUndefined = ''undefined''"
| "to_text JNull = ''null''"
| "to_text (JBool b) = (if b then ''true'' else ''false'')"
| "to_text (JNum n) = (if n < 0 then ''-'' @ string_of_nat (nat (- n)) else string_of_nat (nat n))"
| "to_text (JStr s) = s"

text \<open>
  A document of the collection \<open>Defects\<close>: its \<open>defect_id\<close> and the four fields
  \<open>getDefectInfo\<close> copies.
\<close>

record defect_doc =
  defect_id :: nat
  defect_fields :: defect_info

text \<open>
  A field that may hold an occurrence array: \<open>Falsy\<close> is a missing or falsy value,
  \<open>NotArray\<close> a truthy value that is no array.
\<close>

datatype occurrences = Falsy | NotArray | Array "int list"

fun occ_truthy :: "occurrences \<Rightarrow> bool" where
  "occ_truthy Falsy = False"
| "occ_truthy NotArray = True"
| "occ_truthy (Array xs) = True"

fun occ_array :: "occurrences \<Rightarrow> int list option" where
  "occ_array (Array xs) = Some xs"
| "occ_array NotArray = None"
| "occ_array Falsy = None"

text \<open>A document of the collection \<open>Reports\<close>, or a row of an aggregation.\<close>

record report =
  batch_id :: jsval
  component_name :: jsval
  date :: jsval
  actual_production :: jsval
  ok_parts :: jsval
  ng_parts :: jsval
  defect_occurrences :: occurrences
  ocr_defect_occurrences :: occurrences
  dimensional_defect_occurrences :: occurrences
  Quality :: jsval
  Performance :: jsval
  Availability :: jsval

text \<open>
  \<open>enhancedItem\<close>: the item and the three mapped fields, \<open>None\<close> while a field
  is not set.
\<close>

record enhanced_report =
  item :: report
  mapped_defect_occurrences :: "mapped_defects option"
  mapped_ocr_defect_occurrences :: "mapped_defects option"
  mapped_dimensional_defect_occurrences :: "mapped_defects option"

text \<open>An element of \<open>formattedResults\<close>.\<close>

record formatted_report =
  f_batch_id :: jsval
  f_component_name :: jsval
  f_date :: jsval
  f_actual_production :: jsval
  f_ok_parts :: jsval
  f_ng_parts :: jsval
  f_defect_occurrences :: "mapped_defects option"
  f_ocr_defect_occurrences :: "mapped_defects option"
  f_dimensional_defect_occurrences :: "mapped_defects option"
  f_quality :: jsval
  f_performance :: jsval
  f_availability :: jsval

text \<open>
  The prompts handed to the model, by their kind and the three texts spliced into the
  template: the question, the data and the current time.
\<close>

datatype prompt =
    TestPrompt
  | ComponentPrompt string string string
  | ProductionPrompt string string string

text \<open>
  Everything a call meets outside the module. An outcome is \<open>Inl\<close> of the error
  thrown or \<open>Inr\<close> of the value; \<open>None\<close> is a call that returns nothing and
  does not throw.
  \<^item> \<open>MONGODB_URI\<close> is \<open>process.env.MONGODB_URI\<close>;
  \<^item> \<open>new_MongoClient\<close>, \<open>connect\<close> and \<open>close\<close> are the client's;
  \<^item> \<open>find_defects\<close> is \<open>Defects.find({}).toArray()\<close>,
    \<open>find_reports q\<close> is \<open>Reports.find(q).limit(20).toArray()\<close>,
    \<open>aggregate_reports p\<close> is \<open>Reports.aggregate(p).toArray()\<close> and
    \<open>find_components name\<close> is \<open>db.collection(name).find({}).limit(20).toArray()\<close>;
  \<^item> \<open>format_components\<close> is the formatting of a non-empty list of component
    documents (lines 131 to 229, down to \<open>JSON.stringify\<close>), which no property
    below looks into and which may throw on a malformed document;
  \<^item> \<open>stringify_reports\<close> is \<open>JSON.stringify(formattedResults, null, 2)\<close>;
  \<^item> \<open>generateContent p\<close> is \<open>model.generateContent(p)\<close> with its
    \<open>response\<close>, and the value is the outcome of \<open>response.text()\<close>;
  \<^item> \<open>clock\<close> is \<open>new Date()\<close>, \<open>clock_iso\<close> its \<open>toISOString()\<close>,
    \<open>date_parse\<close> is \<open>new Date(string)\<close> and \<open>host_zone\<close> is the time zone
    of the host;
  \<^item> \<open>TypeError_message v p\<close> is the message of the \<open>TypeError\<close> the engine
    throws when the property \<open>p\<close> is read from the value \<open>v\<close> that is \<open>null\<close>
    or \<open>undefined\<close>, or called on a value \<open>v\<close> that has no such method.
\<close>

record 'c world =
  MONGODB_URI :: "string option"
  new_MongoClient :: "js_error option"
  connect :: "js_error option"
  close :: "js_error option"
  find_defects :: "js_error + defect_doc list"
  find_reports :: "conditions \<Rightarrow> js_error + report list"
  aggregate_reports :: "stage list \<Rightarrow> js_error + report list"
  find_components :: "string \<Rightarrow> js_error + 'c list"
  format_components :: "'c list \<Rightarrow> js_error + string"
  stringify_reports :: "formatted_report list \<Rightarrow> string"
  generateContent :: "prompt \<Rightarrow> js_error + (js_error + string)"
  clock :: local_time
  clock_iso :: string
  date_parse :: "string \<Rightarrow> int option"
  host_zone :: time_zone
  TypeError_message :: "jsval \<Rightarrow> string \<Rightarrow> string"

text \<open>The calls that leave the module, in the order they are made.\<close>

datatype event =
    Connect
  | Close
  | FindDefects
  | FindReports conditions
  | AggregateReports "stage list"
  | FindComponents string
  | GenerateContent prompt

text \<open>
  An asynchronous computation: the calls it made and how it ended, by a thrown error
  (\<open>Inl\<close>) or a returned value (\<open>Inr\<close>).
\<close>

type_synonym 'a io = "event list \<times> (js_error + 'a)"

definition ret :: "'a \<Rightarrow> 'a io" where
  "ret x = ([], Inr x)"

definition throw :: "js_error \<Rightarrow> 'a io" where
  "throw e = ([], Inl e)"

text \<open>One call: the event and the outcome the world gives.\<close>

definition call :: "event \<Rightarrow> js_error + 'a \<Rightarrow> 'a io" where
  "call ev outcome = ([ev], outcome)"

definition done_or :: "js_error option \<Rightarrow> js_error + unit" where
  "done_or r = (case r of None \<Rightarrow> Inr () | Some e \<Rightarrow> Inl e)"

text \<open>\<open>x = await m; f x\<close>\<close>

definition bind :: "'a io \<Rightarrow> ('a \<Rightarrow> 'b io) \<Rightarrow> 'b io" where
  "bind m f =
     (case m of
        (tr, Inl e) \<Rightarrow> (tr, Inl e)
      | (tr, Inr x) \<Rightarrow> (case f x of (tr', r) \<Rightarrow> (tr @ tr', r)))"

text \<open>\<open>try { m } catch (error) { h error }\<close>\<close>

definition try_catch :: "'a io \<Rightarrow> (js_error \<Rightarrow> 'a io) \<Rightarrow> 'a io" where
  "try_catch m h =
     (case m of
        (tr, Inl e) \<Rightarrow> (case h e of (tr', r) \<Rightarrow> (tr @ tr', r))
      | (tr, Inr x) \<Rightarrow> (tr, Inr x))"

text \<open>
  \<open>try { m } finally { fin }\<close>: the outcome of \<open>m\<close> stands unless \<open>fin\<close> throws.
\<close>

definition try_finally :: "'a io \<Rightarrow> unit io \<Rightarrow> 'a io" where
  "try_finally m fin =
     (case m of
        (tr, r) \<Rightarrow>
          (case fin of
             (tr', Inl e) \<Rightarrow> (tr @ tr', Inl e)
           | (tr', Inr u) \<Rightarrow> (tr @ tr', r)))"

text \<open>The truth value of a string that may be \<open>undefined\<close> or \<open>null\<close>.\<close>

fun truthy_string :: "string option \<Rightarrow> bool" where
  "truthy_string None = False"
| "truthy_string (Some s) = (s \<noteq> [])"

text \<open>
  \<open>error.message\<close> in a \<open>catch\<close> block: reading the property of \<open>null\<close> or
  \<open>undefined\<close> throws a \<open>TypeError\<close>.
\<close>

definition read_message :: "'c world \<Rightarrow> js_error \<Rightarrow> jsval io" where
  "read_message w error =
     (case error of
        Thrown v \<Rightarrow> ret v
      | ThrownNull \<Rightarrow> throw (Error (TypeError_message w JNull ''message''))
      | ThrownUndefined \<Rightarrow> throw (Error (TypeError_message w JUndefined ''message'')))"

text \<open>
  \<open>msg.includes(s)\<close> on the value read: a string has the method, and on any other value
  of \<open>jsval\<close> the call throws a \<open>TypeError\<close>.
\<close>

definition message_includes :: "'c world \<Rightarrow> jsval \<Rightarrow> string \<Rightarrow> bool io" where
  "message_includes w msg s =
     (case msg of
        JStr m \<Rightarrow> ret (str_includes m s)
      | _ \<Rightarrow> throw (Error (TypeError_message w msg ''includes'')))"

section \<open>\<open>getDefectInfo\<close> (agent.js, lines 55-78)\<close>

text \<open>
  The handler logs \<open>error.message\<close> and returns the empty object; each handler below
  reads \<open>error.message\<close> first, for its log.
\<close>

definition build_defectMap :: "defect_doc list \<Rightarrow> defect_map" where
  "build_defectMap defects =
     foldl (\<lambda>defectMap defect. defectMap(defect_id defect \<mapsto> defect_fields defect))
       Map.empty defects"

definition getDefectInfo :: "'c world \<Rightarrow> defect_map io" where
  "getDefectInfo w =
     try_catch
       (bind (call FindDefects (find_defects w)) (\<lambda>defects. ret (build_defectMap defects)))
       (\<lambda>error. bind (read_message w error) (\<lambda>msg. ret Map.empty))"

section \<open>\<open>queryComponentDetails\<close> (agent.js, lines 111-242)\<close>

definition empty_collection_message :: "string \<Rightarrow> string" where
  "empty_collection_message componentName =
     ''No data found in collection '' @ [CHR 0x27] @ componentName @ [CHR 0x27] @
     ''. The collection exists but is empty.''"

definition invalid_name_message :: "string \<Rightarrow> string" where
  "invalid_name_message componentName =
     ''Error: Invalid component name '' @ [CHR 0x27] @ componentName @ [CHR 0x27] @
     ''. Please check the component name and try again.''"

definition no_collection_message :: "string \<Rightarrow> string" where
  "no_collection_message componentName =
     ''Error: No collection found for component '' @ [CHR 0x27] @ componentName @ [CHR 0x27] @
     ''. Please verify the component name exists in the database.''"

definition component_error_message :: "string \<Rightarrow> string \<Rightarrow> string" where
  "component_error_message componentName msg =
     ''Error querying component '' @ [CHR 0x27] @ componentName @ [CHR 0x27] @ '': '' @ msg"

definition queryComponentDetails :: "'c world \<Rightarrow> string \<Rightarrow> string io" where
  "queryComponentDetails w componentName =
     try_catch
       (bind (call (FindComponents componentName) (find_components w componentName))
          (\<lambda>components.
             if length components = 0 then ret (empty_collection_message componentName)
             else
               bind (getDefectInfo w)
                 (\<lambda>defectMap. ([], format_components w components))))
       (\<lambda>error.
          bind (read_message w error)
            (\<lambda>msg.
               bind (message_includes w msg ''collection name must be a string'')
                 (\<lambda>invalid.
                    if invalid then ret (invalid_name_message componentName)
                    else
                      bind (message_includes w msg ''ns not found'')
                        (\<lambda>notFound.
                           bind (if notFound then ret True
                                 else message_includes w msg ''Collection'')
                             (\<lambda>missing.
                                if missing then ret (no_collection_message componentName)
                                else ret (component_error_message componentName
                                            (to_text msg)))))))"
section \<open>\<open>queryMongoDB\<close> (agent.js, lines 245-349)\<close>

definition handleAggregationQuery :: "'c world \<Rightarrow> query_analysis \<Rightarrow> report list io" where
  "handleAggregationQuery w queryAnalysis =
     (let pipeline = aggregation_pipeline queryAnalysis
      in call (AggregateReports pipeline) (aggregate_reports w pipeline))"

text \<open>The callback that builds \<open>enhancedResults\<close> (lines 287 to 318).\<close>

definition enhance :: "defect_map \<Rightarrow> report \<Rightarrow> enhanced_report" where
  "enhance defectMap it =
     \<lparr>item = it,
      mapped_defect_occurrences =
        (if occ_truthy (defect_occurrences it)
         then Some (mapDefectOccurrences (occ_array (defect_occurrences it)) defectMap
                      (JStr ''object_detection''))
         else None),
      mapped_ocr_defect_occurrences =
        (if occ_truthy (ocr_defect_occurrences it)
         then Some (mapDefectOccurrences (occ_array (ocr_defect_occurrences it)) defectMap
                      (JStr ''ocr''))
         else None),
      mapped_dimensional_defect_occurrences =
        (if occ_truthy (dimensional_defect_occurrences it) \<and>
            occ_array (dimensional_defect_occurrences it) \<noteq> None
         then Some (mapDefectOccurrences (occ_array (dimensional_defect_occurrences it))
                      defectMap (JStr ''dimensional''))
         else None)\<rparr>"

text \<open>The callback that builds \<open>formattedResults\<close> (lines 325 to 338).\<close>

definition format_report :: "enhanced_report \<Rightarrow> formatted_report" where
  "format_report e =
     \<lparr>f_batch_id = batch_id (item e),
      f_component_name = component_name (item e),
      f_date = date (item e),
      f_actual_production = actual_production (item e),
      f_ok_parts = ok_parts (item e),
      f_ng_parts = ng_parts (item e),
      f_defect_occurrences = mapped_defect_occurrences e,
      f_ocr_defect_occurrences = mapped_ocr_defect_occurrences e,
      f_dimensional_defect_occurrences = mapped_dimensional_defect_occurrences e,
      f_quality = Quality (item e),
      f_performance = Performance (item e),
      f_availability = Availability (item e)\<rparr>"

definition no_reports_message :: string where
  "no_reports_message = ''No production reports found matching your query.''"

text \<open>
  The part of the \<open>try\<close> block after the test of \<open>componentName\<close>
  (lines 262 to 340): the query on the collection \<open>Reports\<close>.
\<close>

definition queryReports :: "'c world \<Rightarrow> string \<Rightarrow> string io" where
  "queryReports w query =
     bind (getDefectInfo w)
       (\<lambda>defectMap.
          let queryAnalysis = analyzeQuery query in
          bind
            (if needsAggregation queryAnalysis \<or> isComponentList queryAnalysis
             then handleAggregationQuery w queryAnalysis
             else (let mongoQuery = parseQuery (host_zone w) (date_parse w) (clock w) query
                   in call (FindReports mongoQuery) (find_reports w mongoQuery)))
            (\<lambda>results.
               let enhancedResults = map (enhance defectMap) results in
               if length enhancedResults = 0 then ret no_reports_message
               else ret (stringify_reports w (map format_report enhancedResults))))"

text \<open>
  \<open>queryMongoDB\<close>. The variable \<open>client\<close> is set once \<open>new MongoClient\<close> has
  returned, and the \<open>finally\<close> block closes it then.
\<close>

definition queryMongoDB :: "'c world \<Rightarrow> string \<Rightarrow> string io" where
  "queryMongoDB w query =
     try_finally
       (try_catch
          (if \<not> truthy_string (MONGODB_URI w)
           then throw (Error ''MONGODB_URI is not set in environment variables'')
           else
             bind ([], done_or (new_MongoClient w))
               (\<lambda>client.
                  bind (call Connect (done_or (connect w)))
                    (\<lambda>connected.
                       let componentName = extractComponentName query in
                       case componentName of
                         None \<Rightarrow> queryReports w query
                       | Some name \<Rightarrow>
                           if name = [] then queryReports w query
                           else queryComponentDetails w name)))
          (\<lambda>error.
             bind (read_message w error)
               (\<lambda>msg. ret (''Error querying database: '' @ to_text msg))))
       (if truthy_string (MONGODB_URI w) \<and> new_MongoClient w = None
        then call Close (done_or (close w))
        else ret ())"

section \<open>\<open>initializeProductionAgent\<close> (agent.js, lines 566-713)\<close>

definition guidance_message :: string where
  "guidance_message =
     ''I can help you with component inspection details! Please spe'' @
     ''cify the component name using quotes or asterisks, for examp'' @ ''le:'' @
     [CHR 0x0A] @ ''          - Please use this format to get exact results:    '' @
     [CHR 0x0A] @ ''          - use single quotes, double quotes, or asterisks t'' @
     ''o specify the component name.'' @ [CHR 0x0A] @ ''          '' @ [CHR 0x0A] @
     ''          Here are some examples of valid component queries:'' @ [CHR 0x0A] @
     ''          - Show inspection summary of the component '' @ [CHR 0x27] @
     ''Component_Name'' @ [CHR 0x27] @ [CHR 0x0A] @
     ''          - What is the status of '' @ [CHR 0x22] @ ''9PLY_NORMAL'' @
     [CHR 0x22] @ ''?'' @ [CHR 0x0A] @
     ''          - Display inspection results for *Marie*'' @ [CHR 0x0A] @
     ''          - Show defects for '' @ [CHR 0x27] @ ''PCN_PRT_25FT'' @ [CHR 0x27] @
     [CHR 0x0A] @ [CHR 0x0A] @
     ''          This helps me identify exactly which component you'' @ [CHR 0x27] @
     ''re asking about.''"

definition invalid_key_message :: string where
  "invalid_key_message =
     ''Error: Invalid Google Gemini API key. Please check your API key configuration.''"

definition fallback_message :: string where
  "fallback_message =
     ''Sorry, I encountered an error processing your request. Please try again.''"

definition component_keywords :: "string list" where
  "component_keywords =
     [''component'', ''part'', ''inspect'', ''defect'', ''status'', ''decision'', ''image'']"

text \<open>
  The function \<open>initializeProductionAgent\<close> returns (lines 596 to 712), the entry
  point \<open>answer\<close> of the specification.
\<close>

definition answer :: "'c world \<Rightarrow> string \<Rightarrow> string io" where
  "answer w question =
     try_catch
       (let hasComponentKeywords = rx_test True (words component_keywords) (toLowerCase question);
            componentName = extractComponentName question
        in if hasComponentKeywords \<and> \<not> truthy_string componentName then ret guidance_message
           else
             bind (queryMongoDB w question)
               (\<lambda>dbResults.
                  let isComponentQuery = truthy_string componentName;
                      prompt = (if isComponentQuery
                                then ComponentPrompt question dbResults (clock_iso w)
                                else ProductionPrompt question dbResults (clock_iso w))
                  in bind (call (GenerateContent prompt) (generateContent w prompt))
                       (\<lambda>response. ([], response))))
       (\<lambda>error.
          bind (read_message w error)
            (\<lambda>msg.
               bind (message_includes w msg ''API_KEY_INVALID'')
                 (\<lambda>keyInvalid.
                    bind (if keyInvalid then ret True
                          else message_includes w msg ''API key not valid'')
                      (\<lambda>invalid.
                         if invalid then ret invalid_key_message
                         else ret fallback_message))))"

text \<open>\<open>testGeminiAPI\<close> (lines 41 to 52)\<close>

definition testGeminiAPI :: "'c world \<Rightarrow> bool io" where
  "testGeminiAPI w =
     try_catch
       (bind (call (GenerateContent TestPrompt) (generateContent w TestPrompt))
          (\<lambda>response. ret True))
       (\<lambda>error. bind (read_message w error) (\<lambda>msg. ret False))"

definition initializeProductionAgent :: "'c world \<Rightarrow> ('c world \<Rightarrow> string \<Rightarrow> string io) io" where
  "initializeProductionAgent w =
     bind
       (try_catch
          (if \<not> truthy_string (MONGODB_URI w)
           then throw (Error ''MONGODB_URI is not set in environment variables'')
           else
             bind ([], done_or (new_MongoClient w))
               (\<lambda>client.
                  bind (call Connect (done_or (connect w)))
                    (\<lambda>connected.
                       bind (getDefectInfo w)
                         (\<lambda>defectMap. call Close (done_or (close w))))))
          (\<lambda>error.
             bind (read_message w error)
               (\<lambda>msg. throw (Error ''MongoDB connection failed''))))
       (\<lambda>tested.
          bind (testGeminiAPI w)
            (\<lambda>apiTest.
               if \<not> apiTest
               then throw (Error ''Gemini API test failed. Please check your API key.'')
               else ret answer))"

section \<open>Example inputs\<close>

text \<open>
  A catalog with one defect, a catalog in which two ids carry the same class, and a
  reading of the clock: 15 March 2025, 10:30:00.000.
\<close>

definition ex_scratch :: defect_info where
  "ex_scratch =
     \<lparr>defect_class = ''Scratch'', description = JStr ''Surface scratch'',
      is_acceptable = JBool False, defect_type = JStr ''object_detection''\<rparr>"

definition ex_catalog :: defect_map where
  "ex_catalog = [1 \<mapsto> ex_scratch]"

definition ex_duplicate_catalog :: defect_map where
  "ex_duplicate_catalog = [1 \<mapsto> ex_scratch, 2 \<mapsto> ex_scratch]"

definition ex_clock :: local_time where
  "ex_clock =
     \<lparr>lt_year = 2025, lt_month = 2, lt_date = 15, lt_hours = 10, lt_minutes = 30,
      lt_seconds = 0, lt_ms = 0\<rparr>"

text \<open>
  Two time zones: UTC, and a zone with one start of daylight saving time, on
  1 October 2017 at 00:00 local time (04:00 UTC), when the offset goes from -4 hours to
  -3 hours and the local times from 00:00 to 01:00 are skipped, as in America/Asuncion;
  a skipped local time is read with the offset before the transition. And two readings
  of the clock in 2017: 1 October and 15 November, 10:30:00.000.
\<close>

definition ex_utc :: time_zone where
  "ex_utc = \<lparr>tza_utc = (\<lambda>t. 0), tza_local = (\<lambda>t. 0)\<rparr>"

definition ex_dst :: time_zone where
  "ex_dst =
     \<lparr>tza_utc = (\<lambda>t. if t < 1506830400000 then - 14400000 else - 10800000),
      tza_local = (\<lambda>t. if t < 1506819600000 then - 14400000 else - 10800000)\<rparr>"

definition ex_clock_october :: local_time where
  "ex_clock_october =
     \<lparr>lt_year = 2017, lt_month = 9, lt_date = 1, lt_hours = 10, lt_minutes = 30,
      lt_seconds = 0, lt_ms = 0\<rparr>"

definition ex_clock_november :: local_time where
  "ex_clock_november =
     \<lparr>lt_year = 2017, lt_month = 10, lt_date = 15, lt_hours = 10, lt_minutes = 30,
      lt_seconds = 0, lt_ms = 0\<rparr>"

text \<open>
  A world in which every call succeeds and every query yields no document, as the store
  answers for an empty collection and, with the MongoDB driver, for a collection that
  does not exist; the component documents are of the unit type.
\<close>

definition ex_world :: "unit world" where
  "ex_world =
     \<lparr>MONGODB_URI = Some ''mongodb://localhost:27017'',
      new_MongoClient = None,
      connect = None,
      close = None,
      find_defects = Inr [],
      find_reports = (\<lambda>q. Inr []),
      aggregate_reports = (\<lambda>p. Inr []),
      find_components = (\<lambda>name. Inr []),
      format_components = (\<lambda>cs. Inr ''[]''),
      stringify_reports = (\<lambda>rs. ''[]''),
      generateContent = (\<lambda>p. Inr (Inr ''FINAL ANSWER: none'')),
      clock = ex_clock,
      clock_iso = ''2025-03-15T10:30:00.000Z'',
      date_parse = (\<lambda>s. None),
      host_zone = ex_utc,
      TypeError_message =
        (\<lambda>v p. if v = JNull \<or> v = JUndefined
                then ''Cannot read properties of '' @ to_text v @ '' (reading '' @
                     [CHR 0x27] @ p @ [CHR 0x27] @ '')''
                else ''error.message.'' @ p @ '' is not a function'')\<rparr>"

section \<open>The words of the specification\<close>

text \<open>
  \<open>quoted_in q s before x\<close>: after the text \<open>before\<close>, the text \<open>s\<close> holds
  \<open>x\<close> between two characters \<open>q\<close>, where \<open>x\<close> is not empty and holds no
  \<open>q\<close>. \<open>has_quoted\<close>: there is such a substring; \<open>first_quoted\<close>: \<open>x\<close> is
  the one that starts first.
\<close>

definition quoted_in :: "char \<Rightarrow> string \<Rightarrow> string \<Rightarrow> string \<Rightarrow> bool" where
  "quoted_in q s before x \<longleftrightarrow>
     x \<noteq> [] \<and> q \<notin> set x \<and> (\<exists>rest. s = before @ [q] @ x @ [q] @ rest)"

definition has_quoted :: "char \<Rightarrow> string \<Rightarrow> bool" where
  "has_quoted q s \<longleftrightarrow> (\<exists>before x. quoted_in q s before x)"

definition first_quoted :: "char \<Rightarrow> string \<Rightarrow> string \<Rightarrow> bool" where
  "first_quoted q s x \<longleftrightarrow>
     (\<exists>before. quoted_in q s before x \<and>
        (\<forall>before' x'. quoted_in q s before' x' \<longrightarrow> length before \<le> length before'))"

text \<open>
  \<open>contains_ci s w\<close>: the text \<open>s\<close> contains the word \<open>w\<close>, letters compared
  without regard to case.
\<close>

definition contains_ci :: "string \<Rightarrow> string \<Rightarrow> bool" where
  "contains_ci s w \<longleftrightarrow> (\<exists>before x rest. s = before @ x @ rest \<and> map to_lower x = map to_lower w)"

text \<open>
  The calendar: the number of days of month \<open>mn\<close> (0 to 11) of year \<open>y\<close>, and the
  month before month \<open>mn\<close> of year \<open>y\<close>.
\<close>

definition DaysInMonth :: "int \<Rightarrow> int \<Rightarrow> int" where
  "DaysInMonth y mn =
     [31, if InLeapYear y then 29 else 28, 31, 30, 31, 30, 31, 31, 30, 31, 30, 31] ! nat mn"

definition previous_month :: "int \<Rightarrow> int \<Rightarrow> int \<times> int" where
  "previous_month y mn = (if mn = 0 then (y - 1, 11) else (y, mn - 1))"

text \<open>
  \<open>has_message e\<close>: the thrown value \<open>e\<close> is an object whose \<open>message\<close> is a
  string, as every \<open>Error\<close> is. \<open>throws_errors w\<close>: whatever the closing of the
  client and the call of the model throw in the world \<open>w\<close> is of this kind.
\<close>

definition has_message :: "js_error \<Rightarrow> bool" where
  "has_message e \<longleftrightarrow> (case e of Thrown (JStr m) \<Rightarrow> True | _ \<Rightarrow> False)"

definition throws_errors :: "'c world \<Rightarrow> bool" where
  "throws_errors w \<longleftrightarrow>
     (\<forall>e. close w = Some e \<longrightarrow> has_message e) \<and>
     (\<forall>p e. generateContent w p = Inl e \<or> generateContent w p = Inr (Inl e) \<longrightarrow> has_message e)"
section \<open>Properties of the defect mapping\<close>

lemma unknown_label_not_proto: "''Unknown_Defect_'' @ s \<noteq> ''__proto__''"
  by simp

lemma mapDefect_step_eq:
  "mapDefect_step dm ty c i m =
     (if 0 < c \<and> defect_label dm i \<noteq> ''__proto__''
      then m(defect_label dm i \<mapsto> defect_entry dm ty i c) else m)"
  by (simp add: mapDefect_step_def set_property_def defect_label_def defect_entry_def
      split: option.splits)

lemma mapDefect_loop_dom:
  "k \<in> dom (mapDefect_loop dm ty i cs m) \<longleftrightarrow>
     k \<in> dom m \<or> (k \<noteq> ''__proto__'' \<and> (\<exists>j < length cs. 0 < cs ! j \<and> defect_label dm (i + j) = k))"
proof (induction cs arbitrary: i m)
  case Nil
  show ?case by simp
next
  case (Cons c cs)
  have ex: "(\<exists>j < length (c # cs). 0 < (c # cs) ! j \<and> defect_label dm (i + j) = k) \<longleftrightarrow>
      (0 < c \<and> defect_label dm i = k) \<or>
      (\<exists>j < length cs. 0 < cs ! j \<and> defect_label dm (Suc i + j) = k)"
    by (simp add: Ex_less_Suc2)
  show ?case
    unfolding mapDefect_loop.simps Cons.IH ex
    by (auto simp: mapDefect_step_eq)
qed

lemma mapDefect_loop_other:
  "\<forall>j < length cs. 0 < cs ! j \<longrightarrow> defect_label dm (i + j) \<noteq> k \<Longrightarrow>
   mapDefect_loop dm ty i cs m k = m k"
proof (induction cs arbitrary: i m)
  case Nil
  show ?case by simp
next
  case (Cons c cs)
  have tl: "\<forall>j < length cs. 0 < cs ! j \<longrightarrow> defect_label dm (Suc i + j) \<noteq> k"
  proof (intro allI impI)
    fix j assume "j < length cs" "0 < cs ! j"
    then have "Suc j < length (c # cs)" "0 < (c # cs) ! Suc j" by simp_all
    with Cons.prems have "defect_label dm (i + Suc j) \<noteq> k" by blast
    then show "defect_label dm (Suc i + j) \<noteq> k" by simp
  qed
  have hd: "0 < c \<longrightarrow> defect_label dm i \<noteq> k"
    using Cons.prems by (auto dest: spec [of _ 0])
  show ?case
    using Cons.IH [OF tl] hd by (auto simp: mapDefect_step_eq)
qed

lemma mapDefect_loop_last:
  assumes "j < length cs" "0 < cs ! j" "defect_label dm (i + j) \<noteq> ''__proto__''"
    and "\<forall>j' < length cs. j < j' \<longrightarrow> 0 < cs ! j' \<longrightarrow> defect_label dm (i + j') \<noteq> defect_label dm (i + j)"
  shows "mapDefect_loop dm ty i cs m (defect_label dm (i + j)) = Some (defect_entry dm ty (i + j) (cs ! j))"
  using assms
proof (induction cs arbitrary: i j m)
  case Nil
  then show ?case by simp
next
  case (Cons c cs)
  show ?case
  proof (cases j)
    case 0
    have later: "\<forall>j' < length cs. 0 < cs ! j' \<longrightarrow> defect_label dm (Suc i + j') \<noteq> defect_label dm i"
    proof (intro allI impI)
      fix j' assume "j' < length cs" "0 < cs ! j'"
      then have "Suc j' < length (c # cs)" "j < Suc j'" "0 < (c # cs) ! Suc j'"
        using 0 by simp_all
      with Cons.prems(4) have "defect_label dm (i + Suc j') \<noteq> defect_label dm (i + j)" by blast
      then show "defect_label dm (Suc i + j') \<noteq> defect_label dm i" using 0 by simp
    qed
    have "0 < c" "defect_label dm i \<noteq> ''__proto__''" using Cons.prems(2,3) 0 by simp_all
    then show ?thesis
      using mapDefect_loop_other [OF later] 0 by (simp add: mapDefect_step_eq)
  next
    case (Suc j0)
    have a: "j0 < length cs" "0 < cs ! j0" "defect_label dm (Suc i + j0) \<noteq> ''__proto__''"
      using Cons.prems Suc by simp_all
    have b: "\<forall>j' < length cs. j0 < j' \<longrightarrow> 0 < cs ! j' \<longrightarrow>
        defect_label dm (Suc i + j') \<noteq> defect_label dm (Suc i + j0)"
    proof (intro allI impI)
      fix j' assume "j' < length cs" "j0 < j'" "0 < cs ! j'"
      then have "Suc j' < length (c # cs)" "j < Suc j'" "0 < (c # cs) ! Suc j'"
        using Suc by simp_all
      with Cons.prems(4) have "defect_label dm (i + Suc j') \<noteq> defect_label dm (i + j)" by blast
      then show "defect_label dm (Suc i + j') \<noteq> defect_label dm (Suc i + j0)" using Suc by simp
    qed
    show ?thesis
      using Cons.IH [OF a b] Suc by simp
  qed
qed

lemma mapDefect_loop_positive:
  assumes "\<And>k e. m k = Some e \<Longrightarrow> 0 < count e"
    and "mapDefect_loop dm ty i cs m k = Some e"
  shows "0 < count e"
  using assms
proof (induction cs arbitrary: i m)
  case Nil
  then show ?case by simp
next
  case (Cons c cs)
  have "0 < count e'" if "mapDefect_step dm ty c i m k' = Some e'" for k' e'
    using that Cons.prems(1)
    by (auto simp: mapDefect_step_eq defect_entry_def split: if_splits option.splits)
  from Cons.IH [OF this] Cons.prems(2) show ?case by simp
qed

text \<open>
  A class named \<open>__proto__\<close> leaves no key: the assignment replaces the prototype of
  the result.
\<close>

lemma mapDefectOccurrences_proto:
  "mapDefectOccurrences (Some [4]) [1 \<mapsto> ex_scratch\<lparr>defect_class := ''__proto__''\<rparr>] JNull
     = Map.empty"
  by (simp add: mapDefectOccurrences_def mapDefect_step_def set_property_def)


text \<open>
  Claim C1, as amended. The callback writes the entry of index \<open>i\<close> under the key
  \<open>defect_label defectMap i\<close>: the class the catalog gives to the id \<open>i + 1\<close>, or
  \<open>Unknown_Defect_{i+1}\<close> (with the description \<open>Unknown defect with ID {i+1}\<close>)
  when the catalog has no such id. For every array and every catalog, the keys of the
  result other than \<open>__proto__\<close> are exactly the labels of the indices whose count is
  positive, and every entry carries a positive count: no entry comes from a zero count.
  An index with a positive count, whose label is not \<open>__proto__\<close> and is not the label
  of a later index with a positive count, has its own entry, with its own count.
\<close>

theorem mapDefectOccurrences_entries:
  "(\<forall>k. k \<noteq> ''__proto__'' \<longrightarrow>
      (k \<in> dom (mapDefectOccurrences (Some occ) defectMap ty) \<longleftrightarrow>
       k \<in> defect_label defectMap ` {i. i < length occ \<and> 0 < occ ! i}))
   \<and> (\<forall>k e. mapDefectOccurrences (Some occ) defectMap ty k = Some e \<longrightarrow> 0 < count e)
   \<and> (\<forall>i < length occ. 0 < occ ! i \<longrightarrow> defect_label defectMap i \<noteq> ''__proto__'' \<longrightarrow>
         (\<forall>j < length occ. i < j \<longrightarrow> 0 < occ ! j \<longrightarrow>
            defect_label defectMap j \<noteq> defect_label defectMap i) \<longrightarrow>
         mapDefectOccurrences (Some occ) defectMap ty (defect_label defectMap i) =
           Some (defect_entry defectMap ty i (occ ! i)))
   \<and> (\<forall>i c. count (defect_entry defectMap ty i c) = c)
   \<and> (\<forall>i c. defectMap (i + 1) = None \<longrightarrow>
         defect_label defectMap i = ''Unknown_Defect_'' @ string_of_nat (i + 1) \<and>
         m_description (defect_entry defectMap ty i c) =
           JStr (''Unknown defect with ID '' @ string_of_nat (i + 1)))"
proof (intro conjI allI impI)
  fix k :: string assume "k \<noteq> ''__proto__''"
  then show "k \<in> dom (mapDefectOccurrences (Some occ) defectMap ty) \<longleftrightarrow>
      k \<in> defect_label defectMap ` {i. i < length occ \<and> 0 < occ ! i}"
    using mapDefect_loop_dom [of k defectMap ty 0 occ Map.empty]
    by (auto simp: mapDefectOccurrences_def)
next
  fix k e assume "mapDefectOccurrences (Some occ) defectMap ty k = Some e"
  then have "mapDefect_loop defectMap ty 0 occ Map.empty k = Some e"
    by (simp add: mapDefectOccurrences_def)
  then show "0 < count e"
    by (rule mapDefect_loop_positive [rotated]) simp
next
  fix i assume i: "i < length occ" "0 < occ ! i" "defect_label defectMap i \<noteq> ''__proto__''"
    and later: "\<forall>j < length occ. i < j \<longrightarrow> 0 < occ ! j \<longrightarrow>
            defect_label defectMap j \<noteq> defect_label defectMap i"
  from mapDefect_loop_last [of i occ defectMap 0 ty Map.empty] i later
  show "mapDefectOccurrences (Some occ) defectMap ty (defect_label defectMap i) =
          Some (defect_entry defectMap ty i (occ ! i))"
    by (simp add: mapDefectOccurrences_def)
next
  fix i c show "count (defect_entry defectMap ty i c) = c"
    by (simp add: defect_entry_def split: option.splits)
next
  fix i c assume "defectMap (i + 1) = None"
  then show "defect_label defectMap i = ''Unknown_Defect_'' @ string_of_nat (i + 1)"
    and "m_description (defect_entry defectMap ty i c) =
           JStr (''Unknown defect with ID '' @ string_of_nat (i + 1))"
    by (simp_all add: defect_label_def defect_entry_def)
qed

text \<open>
  The theorem at the array \<open>[2, 0, 7]\<close> and the catalog that knows the id 1 only:
  the key \<open>Scratch\<close> for index 0 and the key of the unknown id 3 for index 2, each
  with its count, and no key for index 1, whose count is 0.
\<close>

theorem mapDefectOccurrences_entries_witness:
  "''Scratch'' \<in> dom (mapDefectOccurrences (Some [2, 0, 7]) ex_catalog JNull)
   \<and> ''Unknown_Defect_2'' \<notin> dom (mapDefectOccurrences (Some [2, 0, 7]) ex_catalog JNull)
   \<and> map_option count (mapDefectOccurrences (Some [2, 0, 7]) ex_catalog JNull ''Scratch'') =
       Some 2
   \<and> mapDefectOccurrences (Some [2, 0, 7]) ex_catalog JNull ''Unknown_Defect_3'' =
       Some \<lparr>count = 7, m_description = JStr ''Unknown defect with ID 3'',
             m_is_acceptable = JStr ''unknown'', m_defect_type = JStr ''unknown''\<rparr>"
proof -
  have three: "i < 3 \<longleftrightarrow> i = 0 \<or> i = 1 \<or> i = 2" for i :: nat
    by arith
  have pos: "{i. i < length [2, 0, 7 :: int] \<and> 0 < [2, 0, 7 :: int] ! i} = {0, 2}"
  proof -
    have len: "length [2, 0, 7 :: int] = 3" by simp
    show ?thesis unfolding len three by auto
  qed
  have s3: "string_of_nat 3 = ''3''"
    by (simp add: string_of_nat.simps [of 3] digit_char_def)
  have l0: "defect_label ex_catalog 0 = ''Scratch''"
    by (simp add: defect_label_def ex_catalog_def ex_scratch_def)
  have l2: "defect_label ex_catalog 2 = ''Unknown_Defect_3''"
    using s3 by (simp add: defect_label_def ex_catalog_def numeral_3_eq_3)
  have e0: "count (defect_entry ex_catalog JNull 0 2) = 2"
    by (simp add: defect_entry_def ex_catalog_def)
  have e2: "defect_entry ex_catalog JNull 2 7 =
      \<lparr>count = 7, m_description = JStr ''Unknown defect with ID 3'',
       m_is_acceptable = JStr ''unknown'', m_defect_type = JStr ''unknown''\<rparr>"
    using s3 by (simp add: defect_entry_def ex_catalog_def js_or_def numeral_3_eq_3)
  note t = mapDefectOccurrences_entries [of "[2, 0, 7]" ex_catalog JNull]
  have keys: "k \<in> dom (mapDefectOccurrences (Some [2, 0, 7]) ex_catalog JNull) \<longleftrightarrow>
      k \<in> {''Scratch'', ''Unknown_Defect_3''}" if "k \<noteq> ''__proto__''" for k
    using t that unfolding pos by (simp add: l0 l2)
  have d1: "''Scratch'' \<in> dom (mapDefectOccurrences (Some [2, 0, 7]) ex_catalog JNull)"
    by (subst keys) simp_all
  have d2: "''Unknown_Defect_2'' \<notin> dom (mapDefectOccurrences (Some [2, 0, 7]) ex_catalog JNull)"
    by (subst keys) simp_all
  have later0: "\<forall>j < length [2, 0, 7 :: int]. 0 < j \<longrightarrow> 0 < [2, 0, 7 :: int] ! j \<longrightarrow>
      defect_label ex_catalog j \<noteq> defect_label ex_catalog 0"
  proof (intro allI impI)
    fix j :: nat
    assume j: "j < length [2, 0, 7 :: int]" "0 < j" "0 < [2, 0, 7 :: int] ! j"
    then have "j \<in> {i. i < length [2, 0, 7 :: int] \<and> 0 < [2, 0, 7 :: int] ! i}" by simp
    then have "j = 0 \<or> j = 2" unfolding pos by simp
    with j(2) have "j = 2" by simp
    then show "defect_label ex_catalog j \<noteq> defect_label ex_catalog 0" by (simp add: l0 l2)
  qed
  have later2: "\<forall>j < length [2, 0, 7 :: int]. 2 < j \<longrightarrow> 0 < [2, 0, 7 :: int] ! j \<longrightarrow>
      defect_label ex_catalog j \<noteq> defect_label ex_catalog 2"
  proof (intro allI impI)
    fix j :: nat
    assume "j < length [2, 0, 7 :: int]" "2 < j"
    then have False by simp
    then show "defect_label ex_catalog j \<noteq> defect_label ex_catalog 2" ..
  qed
  have own: "mapDefectOccurrences (Some [2, 0, 7]) ex_catalog JNull (defect_label ex_catalog i) =
      Some (defect_entry ex_catalog JNull i ([2, 0, 7] ! i))"
    if "i < length [2, 0, 7 :: int]" "0 < [2, 0, 7 :: int] ! i"
      "defect_label ex_catalog i \<noteq> ''__proto__''"
      "\<forall>j < length [2, 0, 7 :: int]. i < j \<longrightarrow> 0 < [2, 0, 7 :: int] ! j \<longrightarrow>
         defect_label ex_catalog j \<noteq> defect_label ex_catalog i" for i
    using t that by blast
  have "mapDefectOccurrences (Some [2, 0, 7]) ex_catalog JNull (defect_label ex_catalog 0) =
      Some (defect_entry ex_catalog JNull 0 ([2, 0, 7] ! 0))"
    by (rule own [OF _ _ _ later0]) (simp_all add: l0)
  then have v0: "map_option count
      (mapDefectOccurrences (Some [2, 0, 7]) ex_catalog JNull ''Scratch'') = Some 2"
    by (simp add: l0 e0)
  have "mapDefectOccurrences (Some [2, 0, 7]) ex_catalog JNull (defect_label ex_catalog 2) =
      Some (defect_entry ex_catalog JNull 2 ([2, 0, 7] ! 2))"
    by (rule own [OF _ _ _ later2]) (simp_all add: l2)
  then have v2: "mapDefectOccurrences (Some [2, 0, 7]) ex_catalog JNull ''Unknown_Defect_3'' =
      Some \<lparr>count = 7, m_description = JStr ''Unknown defect with ID 3'',
            m_is_acceptable = JStr ''unknown'', m_defect_type = JStr ''unknown''\<rparr>"
    by (simp add: l2 e2)
  show ?thesis using d1 d2 v0 v2 by simp
qed

text \<open>
  The claim as it stands fails where two ids of the catalog carry one class: the counts
  5 and 3 are both positive, and the result holds the single key \<open>Scratch\<close> with the
  count 3; the count of index 0 is overwritten.
\<close>

theorem mapDefectOccurrences_collision_counterexample:
  "dom (mapDefectOccurrences (Some [5, 3]) ex_duplicate_catalog JNull) = {''Scratch''}
   \<and> map_option count (mapDefectOccurrences (Some [5, 3]) ex_duplicate_catalog JNull ''Scratch'')
       = Some 3"
  by (simp add: mapDefectOccurrences_def mapDefect_step_def set_property_def
      ex_duplicate_catalog_def ex_scratch_def js_or_def)

section \<open>Properties of strings and of the matcher\<close>

lemma to_lower_to_upper: "to_lower (to_upper c) = to_lower c"
  by (cases "c \<in> set ''abcdefghijklmnopqrstuvwxyz''") (auto simp: to_upper_def to_lower_def)

lemma to_upper_to_lower: "to_upper (to_lower c) = to_upper c"
  by (cases "c \<in> set ''ABCDEFGHIJKLMNOPQRSTUVWXYZ''") (auto simp: to_upper_def to_lower_def)

lemma to_upper_eq_iff: "to_upper a = to_upper c \<longleftrightarrow> to_lower a = to_lower c"
  by (metis to_lower_to_upper to_upper_to_lower)

lemma pre_iff:
  "pre ci w s \<longleftrightarrow>
     length w \<le> length s \<and> map (canon ci) (take (length w) s) = map (canon ci) w"
  by (induction ci w s rule: pre.induct) auto

lemma rx_search_None_iff:
  "rx_search ci inp r s = None \<longleftrightarrow> (\<forall>k \<le> length s. rx_run ci inp r (drop k s, []) = [])"
proof (induction s)
  case Nil
  show ?case by (simp split: list.splits prod.splits)
next
  case (Cons c t)
  have "(\<forall>k \<le> length (c # t). rx_run ci inp r (drop k (c # t), []) = []) \<longleftrightarrow>
        rx_run ci inp r (c # t, []) = [] \<and> (\<forall>k \<le> length t. rx_run ci inp r (drop k t, []) = [])"
  proof (intro iffI conjI allI impI)
    assume a: "\<forall>k \<le> length (c # t). rx_run ci inp r (drop k (c # t), []) = []"
    from a [rule_format, of 0] show "rx_run ci inp r (c # t, []) = []" by simp
    fix k assume "k \<le> length t"
    with a [rule_format, of "Suc k"] show "rx_run ci inp r (drop k t, []) = []" by simp
  next
    fix k
    assume a: "rx_run ci inp r (c # t, []) = [] \<and>
      (\<forall>k \<le> length t. rx_run ci inp r (drop k t, []) = [])"
      and k: "k \<le> length (c # t)"
    show "rx_run ci inp r (drop k (c # t), []) = []"
    proof (cases k)
      case 0
      with a show ?thesis by simp
    next
      case (Suc k')
      with a k show ?thesis by simp
    qed
  qed
  with Cons.IH show ?case by (simp split: list.splits prod.splits)
qed

lemma rx_search_Some:
  assumes "rx_search ci inp r s = Some m"
  shows "\<exists>k s' g rest. k \<le> length s \<and> (\<forall>j < k. rx_run ci inp r (drop j s, []) = []) \<and>
           rx_run ci inp r (drop k s, []) = (s', g) # rest \<and>
           m = (take (length s - k - length s') (drop k s), g)"
  using assms
proof (induction s)
  case Nil
  then obtain s' g rest where "rx_run ci inp r ([], []) = (s', g) # rest" "m = ([], g)"
    by (auto split: list.splits prod.splits)
  then have "0 \<le> length ([] :: string) \<and> (\<forall>j < 0. rx_run ci inp r (drop j [], []) = []) \<and>
      rx_run ci inp r (drop 0 [], []) = (s', g) # rest \<and>
      m = (take (length ([] :: string) - 0 - length s') (drop 0 []), g)"
    by simp
  then show ?case by blast
next
  case (Cons c t)
  show ?case
  proof (cases "rx_run ci inp r (c # t, [])")
    case Nil
    with Cons.prems have "rx_search ci inp r t = Some m" by simp
    from Cons.IH [OF this] obtain k s' g rest where k: "k \<le> length t"
      "\<forall>j < k. rx_run ci inp r (drop j t, []) = []"
      "rx_run ci inp r (drop k t, []) = (s', g) # rest"
      "m = (take (length t - k - length s') (drop k t), g)"
      by blast
    have "\<forall>j < Suc k. rx_run ci inp r (drop j (c # t), []) = []"
    proof (intro allI impI)
      fix j assume "j < Suc k"
      then show "rx_run ci inp r (drop j (c # t), []) = []"
        using Nil k(2) by (cases j) auto
    qed
    with k have "Suc k \<le> length (c # t) \<and>
      (\<forall>j < Suc k. rx_run ci inp r (drop j (c # t), []) = []) \<and>
      rx_run ci inp r (drop (Suc k) (c # t), []) = (s', g) # rest \<and>
      m = (take (length (c # t) - Suc k - length s') (drop (Suc k) (c # t)), g)"
      by simp
    then show ?thesis by blast
  next
    case (Cons st rest)
    obtain s' g where st: "st = (s', g)" by (cases st)
    with Cons Cons.prems have "m = (take (length (c # t) - length s') (c # t), g)"
      by simp
    with Cons st have "0 \<le> length (c # t) \<and>
      (\<forall>j < 0. rx_run ci inp r (drop j (c # t), []) = []) \<and>
      rx_run ci inp r (drop 0 (c # t), []) = (s', g) # rest \<and>
      m = (take (length (c # t) - 0 - length s') (drop 0 (c # t)), g)"
      by simp
    then show ?thesis by blast
  qed
qed

lemma rx_run_alt_of_Cons:
  "rs \<noteq> [] \<Longrightarrow> rx_run ci inp (alt_of (r # rs)) st = rx_run ci inp r st @ rx_run ci inp (alt_of rs) st"
  by (cases rs) simp_all

lemma rx_run_words:
  "ws \<noteq> [] \<Longrightarrow>
   rx_run ci inp (words ws) (s, g) =
     map (\<lambda>w. (drop (length w) s, g)) (filter (\<lambda>w. pre ci w s) ws)"
proof (induction ws)
  case Nil
  then show ?case by simp
next
  case (Cons w ws)
  show ?case
  proof (cases "ws = []")
    case True
    then show ?thesis by (simp add: words_def)
  next
    case False
    with Cons.IH have "rx_run ci inp (words ws) (s, g) =
      map (\<lambda>w. (drop (length w) s, g)) (filter (\<lambda>w. pre ci w s) ws)" by simp
    with False show ?thesis
      using rx_run_alt_of_Cons [of "map Str ws" ci inp "Str w" "(s, g)"]
      by (simp add: words_def)
  qed
qed

lemma star_notset:
  "rx_run False inp (Star (NotSet [Chr q])) (s, g) =
     map (\<lambda>k. (drop k s, g)) (rev [0..<Suc (length (takeWhile (\<lambda>c. c \<noteq> q) s))])"
proof (induction s)
  case Nil
  show ?case by (subst rx_run.simps) (simp add: canon_def)
next
  case (Cons c t)
  show ?case
  proof (cases "c = q")
    case True
    then show ?thesis by (subst rx_run.simps) (simp add: canon_def)
  next
    case False
    let ?n = "length (takeWhile (\<lambda>c. c \<noteq> q) t)"
    have "[0..<Suc (Suc ?n)] = 0 # [Suc 0..<Suc (Suc ?n)]"
      by (rule upt_conv_Cons) simp
    then have upt: "[0..<Suc (Suc ?n)] = 0 # map Suc [0..<Suc ?n]"
      by (simp only: map_Suc_upt)
    have "rx_run False inp (Star (NotSet [Chr q])) (c # t, g) =
        rx_run False inp (Star (NotSet [Chr q])) (t, g) @ [(c # t, g)]"
      using False by (subst rx_run.simps) (simp add: canon_def)
    also have "\<dots> = map (\<lambda>k. (drop k t, g)) (rev [0..<Suc ?n]) @ [(c # t, g)]"
      by (simp only: Cons.IH)
    also have "\<dots> = map (\<lambda>k. (drop k (c # t), g)) (rev [0..<Suc (Suc ?n)])"
      unfolding upt by (simp add: rev_map comp_def)
    finally show ?thesis using False by simp
  qed
qed

lemma concat_map_all_Nil: "(\<And>x. x \<in> set xs \<Longrightarrow> f x = []) \<Longrightarrow> concat (map f xs) = []"
  by (induction xs) auto

lemma rx_run_Str1:
  "rx_run False inp (Str [q]) (s, g) = (case s of [] \<Rightarrow> [] | c # t \<Rightarrow> if c = q then [(t, g)] else [])"
  by (cases s) (auto simp: canon_def)

lemma one_or_more_notset:
  "rx_run False inp (OneOrMore (NotSet [Chr q])) (t, g) =
     map (\<lambda>k. (drop k t, g)) (rev [1..<Suc (length (takeWhile (\<lambda>c. c \<noteq> q) t))])"
proof (cases t)
  case Nil
  then show ?thesis by (simp add: OneOrMore_def)
next
  case (Cons c u)
  show ?thesis
  proof (cases "c = q")
    case True
    with Cons show ?thesis by (simp add: OneOrMore_def canon_def)
  next
    case False
    let ?n = "length (takeWhile (\<lambda>c. c \<noteq> q) u)"
    have "[1..<Suc (Suc ?n)] = map Suc [0..<Suc ?n]"
      by (simp only: map_Suc_upt One_nat_def)
    then have "map (\<lambda>k. (drop k (c # u), g)) (rev [1..<Suc (Suc ?n)]) =
        map (\<lambda>k. (drop k u, g)) (rev [0..<Suc ?n])"
      by (simp add: rev_map comp_def)
    moreover have "rx_run False inp (OneOrMore (NotSet [Chr q])) (c # u, g) =
        rx_run False inp (Star (NotSet [Chr q])) (u, g)"
      using False by (simp add: OneOrMore_def canon_def del: rx_run.simps(7))
    ultimately show ?thesis
      using Cons False by (simp add: star_notset del: rx_run.simps(7))
  qed
qed

lemma group_one_or_more_notset:
  "rx_run False inp (Group n (OneOrMore (NotSet [Chr q]))) (t, g) =
     map (\<lambda>k. (drop k t, (n, take k t) # g))
       (rev [1..<Suc (length (takeWhile (\<lambda>c. c \<noteq> q) t))])"
proof -
  have "length t - length (drop k t) = k"
    if "k \<in> set (rev [1..<Suc (length (takeWhile (\<lambda>c. c \<noteq> q) t))])" for k
  proof -
    from that have "k \<le> length (takeWhile (\<lambda>c. c \<noteq> q) t)" by auto
    also have "\<dots> \<le> length t" by (rule length_takeWhile_le)
    finally show ?thesis by simp
  qed
  then show ?thesis
    by (simp add: one_or_more_notset del: rx_run.simps(5))
qed

lemma delimited_tail:
  "rx_run False inp (Seq (Group n (OneOrMore (NotSet [Chr q]))) (Str [q])) (t, g) =
     (let x = takeWhile (\<lambda>c. c \<noteq> q) t in
      if x \<noteq> [] \<and> length x < length t then [(drop (Suc (length x)) t, (n, x) # g)] else [])"
proof -
  let ?x = "takeWhile (\<lambda>c. c \<noteq> q) t"
  let ?F = "\<lambda>k. rx_run False inp (Str [q]) (drop k t, (n, take k t) # g)"
  have run: "rx_run False inp (Seq (Group n (OneOrMore (NotSet [Chr q]))) (Str [q])) (t, g) =
      concat (map ?F (rev [1..<Suc (length ?x)]))"
    by (simp add: group_one_or_more_notset comp_def del: rx_run.simps(1) rx_run.simps(9))
  have short: "?F k = []" if "k < length ?x" for k
  proof -
    from that have kt: "k < length t"
      using length_takeWhile_le [of "\<lambda>c. c \<noteq> q" t] by simp
    have "?x ! k = t ! k" using that by (rule takeWhile_nth)
    moreover have "?x ! k \<in> set ?x" using that by simp
    ultimately have "t ! k \<noteq> q" using set_takeWhileD [of "t ! k" "\<lambda>c. c \<noteq> q" t] by auto
    moreover have "drop k t = t ! k # drop (Suc k) t" using kt by (simp add: Cons_nth_drop_Suc)
    ultimately show ?thesis by (simp add: rx_run_Str1 del: rx_run.simps(1))
  qed
  show ?thesis
  proof (cases "?x = []")
    case True
    with run show ?thesis by simp
  next
    case False
    then obtain m where m: "length ?x = Suc m" by (cases ?x) auto
    have "[1..<Suc (Suc m)] = [1..<Suc m] @ [Suc m]" by simp
    then have "concat (map ?F (rev [1..<Suc (length ?x)])) =
        ?F (Suc m) @ concat (map ?F (rev [1..<Suc m]))"
      using m by simp
    moreover have "concat (map ?F (rev [1..<Suc m])) = []"
    proof (rule concat_map_all_Nil)
      fix k assume "k \<in> set (rev [1..<Suc m])"
      then have "k < length ?x" using m by auto
      then show "?F k = []" by (rule short)
    qed
    ultimately have eq: "rx_run False inp (Seq (Group n (OneOrMore (NotSet [Chr q]))) (Str [q])) (t, g)
        = ?F (length ?x)"
      using run m by simp
    have tk: "take (length ?x) t = ?x"
      by (metis append_eq_conv_conj takeWhile_dropWhile_id)
    show ?thesis
    proof (cases "length ?x < length t")
      case True
      then have "\<not> (t ! length ?x \<noteq> q)" by (rule nth_length_takeWhile)
      moreover have "drop (length ?x) t = t ! length ?x # drop (Suc (length ?x)) t"
        using True by (simp add: Cons_nth_drop_Suc)
      ultimately have "?F (length ?x) = [(drop (Suc (length ?x)) t, (n, ?x) # g)]"
        by (simp add: rx_run_Str1 tk del: rx_run.simps(1))
      with eq True False show ?thesis by (simp add: Let_def)
    next
      case False
      then have "drop (length ?x) t = []" by simp
      then have "?F (length ?x) = []" by (simp add: rx_run_Str1 del: rx_run.simps(1))
      with eq False show ?thesis by (simp add: Let_def)
    qed
  qed
qed

lemma delimited_run:
  "rx_run False inp (delimited q) (s, g) =
     (case s of
        [] \<Rightarrow> []
      | c # t \<Rightarrow>
          let x = takeWhile (\<lambda>c. c \<noteq> q) t in
          if c = q \<and> x \<noteq> [] \<and> length x < length t
          then [(drop (Suc (length x)) t, (1, x) # g)] else [])"
proof (cases s)
  case Nil
  then show ?thesis by (simp add: delimited_def)
next
  case (Cons c t)
  have "rx_run False inp (delimited q) (c # t, g) =
      concat (map (rx_run False inp (Seq (Group 1 (OneOrMore (NotSet [Chr q]))) (Str [q])))
        (rx_run False inp (Str [q]) (c # t, g)))"
    by (simp add: delimited_def del: rx_run.simps(1))
  then show ?thesis
    using Cons by (simp add: rx_run_Str1 delimited_tail Let_def del: rx_run.simps)
qed

lemma delimited_run_quoted:
  assumes "x \<noteq> []" "q \<notin> set x"
  shows "rx_run False inp (delimited q) (q # x @ q # rest, g) = [(rest, (1, x) # g)]"
proof -
  have "takeWhile (\<lambda>c. c \<noteq> q) (x @ q # rest) = x"
    using assms(2) by (subst takeWhile_append2) auto
  with assms(1) show ?thesis by (simp add: delimited_run Let_def)
qed

lemma delimited_run_nonempty:
  assumes "rx_run False inp (delimited q) (s, g) \<noteq> []"
  shows "\<exists>x rest. x \<noteq> [] \<and> q \<notin> set x \<and> s = q # x @ q # rest"
proof -
  from assms obtain t where s: "s = q # t"
    and x: "takeWhile (\<lambda>c. c \<noteq> q) t \<noteq> []"
    and l: "length (takeWhile (\<lambda>c. c \<noteq> q) t) < length t"
    by (auto simp: delimited_run Let_def split: list.splits if_splits)
  let ?x = "takeWhile (\<lambda>c. c \<noteq> q) t" and ?d = "dropWhile (\<lambda>c. c \<noteq> q) t"
  have t: "t = ?x @ ?d" by simp
  from l have "?d \<noteq> []" using t by (metis append_Nil2 less_irrefl)
  then have "\<not> (hd ?d \<noteq> q)" by (rule hd_dropWhile)
  with \<open>?d \<noteq> []\<close> have "?d = q # tl ?d" by (cases ?d) auto
  with t have "t = ?x @ q # tl ?d" by simp
  moreover have "q \<notin> set ?x" using set_takeWhileD [of q "\<lambda>c. c \<noteq> q" t] by auto
  ultimately show ?thesis using s x by blast
qed

lemma quoted_in_drop:
  "quoted_in q s before x \<longleftrightarrow>
     length before \<le> length s \<and> take (length before) s = before \<and> x \<noteq> [] \<and> q \<notin> set x \<and>
     (\<exists>rest. drop (length before) s = q # x @ q # rest)"
proof
  assume "quoted_in q s before x"
  then obtain rest where "x \<noteq> []" "q \<notin> set x" "s = before @ [q] @ x @ [q] @ rest"
    by (auto simp: quoted_in_def)
  then show "length before \<le> length s \<and> take (length before) s = before \<and> x \<noteq> [] \<and>
      q \<notin> set x \<and> (\<exists>rest. drop (length before) s = q # x @ q # rest)"
    by simp
next
  assume a: "length before \<le> length s \<and> take (length before) s = before \<and> x \<noteq> [] \<and>
      q \<notin> set x \<and> (\<exists>rest. drop (length before) s = q # x @ q # rest)"
  then obtain rest where "drop (length before) s = q # x @ q # rest" by blast
  with a have "s = before @ [q] @ x @ [q] @ rest"
    by (metis append_Cons append_Nil append_take_drop_id)
  with a show "quoted_in q s before x" by (auto simp: quoted_in_def)
qed

lemma rx_match_delimited_None: "rx_match False (delimited q) s = None \<longleftrightarrow> \<not> has_quoted q s"
proof
  assume n: "rx_match False (delimited q) s = None"
  show "\<not> has_quoted q s"
  proof
    assume "has_quoted q s"
    then obtain before x where "quoted_in q s before x" by (auto simp: has_quoted_def)
    then obtain rest where b: "length before \<le> length s" "x \<noteq> []" "q \<notin> set x"
      "drop (length before) s = q # x @ q # rest"
      by (auto simp: quoted_in_drop)
    from n b(1) have "rx_run False s (delimited q) (drop (length before) s, []) = []"
      by (simp add: rx_match_def rx_search_None_iff)
    with b show False by (simp add: delimited_run_quoted)
  qed
next
  assume h: "\<not> has_quoted q s"
  have "rx_run False s (delimited q) (drop k s, []) = []" if "k \<le> length s" for k
  proof (rule ccontr)
    assume "rx_run False s (delimited q) (drop k s, []) \<noteq> []"
    from delimited_run_nonempty [OF this] obtain x rest where
      "x \<noteq> []" "q \<notin> set x" "drop k s = q # x @ q # rest" by blast
    with that have "quoted_in q s (take k s) x" by (auto simp: quoted_in_drop)
    with h show False by (auto simp: has_quoted_def)
  qed
  then show "rx_match False (delimited q) s = None"
    by (simp add: rx_match_def rx_search_None_iff)
qed

lemma rx_match_delimited_Some:
  assumes "rx_match False (delimited q) s = Some m"
  shows "\<exists>x. capture m 1 = Some x \<and> first_quoted q s x"
proof -
  from assms have "rx_search False s (delimited q) s = Some m" by (simp add: rx_match_def)
  from rx_search_Some [OF this] obtain k s' g rest where k: "k \<le> length s"
    and first: "\<forall>j < k. rx_run False s (delimited q) (drop j s, []) = []"
    and run: "rx_run False s (delimited q) (drop k s, []) = (s', g) # rest"
    and m: "m = (take (length s - k - length s') (drop k s), g)"
    by blast
  from run have "rx_run False s (delimited q) (drop k s, []) \<noteq> []" by simp
  from delimited_run_nonempty [OF this] obtain x rest' where
    x: "x \<noteq> []" "q \<notin> set x" "drop k s = q # x @ q # rest'" by blast
  with run have "g = [(1, x)]" by (simp add: delimited_run_quoted)
  with m have cap: "capture m 1 = Some x" by (simp add: capture_def)
  from x k have qi: "quoted_in q s (take k s) x" by (auto simp: quoted_in_drop)
  have "length (take k s) \<le> length before'" if "quoted_in q s before' x'" for before' x'
  proof (rule ccontr)
    assume "\<not> length (take k s) \<le> length before'"
    with k have lt: "length before' < k" by simp
    from that obtain r where "x' \<noteq> []" "q \<notin> set x'" "drop (length before') s = q # x' @ q # r"
      by (auto simp: quoted_in_drop)
    then have "rx_run False s (delimited q) (drop (length before') s, []) \<noteq> []"
      by (simp add: delimited_run_quoted)
    with first lt show False by blast
  qed
  with qi have "first_quoted q s x" by (auto simp: first_quoted_def)
  with cap show ?thesis by blast
qed

lemma first_quoted_unique:
  assumes "first_quoted q s x" "first_quoted q s y"
  shows "x = y"
proof -
  from assms(1) obtain b where b1: "quoted_in q s b x"
    and bmin: "\<forall>b' x'. quoted_in q s b' x' \<longrightarrow> length b \<le> length b'"
    unfolding first_quoted_def by blast
  from assms(2) obtain c where b2: "quoted_in q s c y"
    and cmin: "\<forall>b' x'. quoted_in q s b' x' \<longrightarrow> length c \<le> length b'"
    unfolding first_quoted_def by blast
  note b = b1 b2
  from bmin b2 cmin b1 have "length b \<le> length c" "length c \<le> length b" by blast+
  then have len: "length b = length c" by simp
  from b obtain r r' where "q \<notin> set x" "q \<notin> set y"
    "drop (length b) s = q # x @ q # r" "drop (length c) s = q # y @ q # r'"
    by (auto simp: quoted_in_drop)
  with len have "x @ q # r = y @ q # r'" and nq: "q \<notin> set x" "q \<notin> set y" by simp_all
  then have "takeWhile (\<lambda>c. c \<noteq> q) (x @ q # r) = takeWhile (\<lambda>c. c \<noteq> q) (y @ q # r')" by simp
  moreover have "takeWhile (\<lambda>c. c \<noteq> q) (z @ q # t) = z" if "q \<notin> set z" for z t
    using that by (subst takeWhile_append2) auto
  ultimately show ?thesis using nq by simp
qed

lemma first_quoted_has: "first_quoted q s x \<Longrightarrow> has_quoted q s"
  by (auto simp: first_quoted_def has_quoted_def)

lemma rx_match_delimited_first:
  assumes "first_quoted q s x"
  shows "\<exists>m. rx_match False (delimited q) s = Some m \<and> capture m 1 = Some x"
proof -
  from assms have "rx_match False (delimited q) s \<noteq> None"
    by (simp add: rx_match_delimited_None first_quoted_has)
  then obtain m where m: "rx_match False (delimited q) s = Some m" by auto
  from rx_match_delimited_Some [OF m] obtain x' where "capture m 1 = Some x'" "first_quoted q s x'"
    by blast
  with assms m show ?thesis by (auto dest: first_quoted_unique)
qed

lemma extractComponentName_Some_iff:
  "extractComponentName s = Some x \<longleftrightarrow>
     first_quoted (CHR 0x27) s x
     \<or> (\<not> has_quoted (CHR 0x27) s \<and> first_quoted (CHR 0x22) s x)
     \<or> (\<not> has_quoted (CHR 0x27) s \<and> \<not> has_quoted (CHR 0x22) s \<and> first_quoted (CHR ''*'') s x)"
proof (cases "rx_match False (delimited (CHR 0x27)) s")
  case (Some m)
  from rx_match_delimited_Some [OF Some] obtain y where y: "capture m 1 = Some y"
    "first_quoted (CHR 0x27) s y" by blast
  then have "has_quoted (CHR 0x27) s" by (simp add: first_quoted_has)
  with Some y show ?thesis
    by (auto simp: extractComponentName_def dest: first_quoted_unique)
next
  case None
  then have n1: "\<not> has_quoted (CHR 0x27) s" by (simp add: rx_match_delimited_None)
  then have f1: "\<not> first_quoted (CHR 0x27) s x" by (auto dest: first_quoted_has)
  show ?thesis
  proof (cases "rx_match False (delimited (CHR 0x22)) s")
    case (Some m)
    from rx_match_delimited_Some [OF Some] obtain y where y: "capture m 1 = Some y"
      "first_quoted (CHR 0x22) s y" by blast
    then have "has_quoted (CHR 0x22) s" by (simp add: first_quoted_has)
    with None Some y n1 f1 show ?thesis
      by (auto simp: extractComponentName_def dest: first_quoted_unique)
  next
    case None2: None
    then have n2: "\<not> has_quoted (CHR 0x22) s" by (simp add: rx_match_delimited_None)
    then have f2: "\<not> first_quoted (CHR 0x22) s x" by (auto dest: first_quoted_has)
    show ?thesis
    proof (cases "rx_match False (delimited (CHR ''*'')) s")
      case (Some m)
      from rx_match_delimited_Some [OF Some] obtain y where y: "capture m 1 = Some y"
        "first_quoted (CHR ''*'') s y" by blast
      with None None2 Some n1 n2 f1 f2 show ?thesis
        by (auto simp: extractComponentName_def dest: first_quoted_unique)
    next
      case None3: None
      then have "\<not> has_quoted (CHR ''*'') s" by (simp add: rx_match_delimited_None)
      then have "\<not> first_quoted (CHR ''*'') s x" by (auto dest: first_quoted_has)
      with None None2 None3 f1 f2 show ?thesis
        by (simp add: extractComponentName_def)
    qed
  qed
qed

lemma extractComponentName_None_iff:
  "extractComponentName s = None \<longleftrightarrow>
     \<not> has_quoted (CHR 0x27) s \<and> \<not> has_quoted (CHR 0x22) s \<and> \<not> has_quoted (CHR ''*'') s"
proof -
  have "capture m 1 \<noteq> None" if "rx_match False (delimited q) s = Some m" for q m
    using rx_match_delimited_Some [OF that] by auto
  then show ?thesis
    by (auto simp: extractComponentName_def rx_match_delimited_None [symmetric]
        split: option.splits)
qed

lemma extractComponentName_nonempty: "extractComponentName s = Some x \<Longrightarrow> x \<noteq> []"
  by (auto simp: extractComponentName_Some_iff first_quoted_def quoted_in_def)

lemma has_quoted_in_set: "has_quoted q s \<Longrightarrow> q \<in> set s"
  by (auto simp: has_quoted_def quoted_in_def)

lemma first_quoted_intro:
  assumes "q \<notin> set before" "x \<noteq> []" "q \<notin> set x"
  shows "first_quoted q (before @ [q] @ x @ [q] @ rest) x"
proof -
  let ?s = "before @ [q] @ x @ [q] @ rest"
  have qi: "quoted_in q ?s before x" using assms by (auto simp: quoted_in_def)
  have "length before \<le> length b'" if "quoted_in q ?s b' x'" for b' x'
  proof (rule ccontr)
    assume "\<not> length before \<le> length b'"
    then have lt: "length b' < length before" by simp
    from that obtain r where "?s = b' @ [q] @ x' @ [q] @ r" by (auto simp: quoted_in_def)
    then have "?s ! length b' = q" by (metis append_Cons nth_append_length)
    moreover have "?s ! length b' = before ! length b'" using lt by (simp add: nth_append)
    ultimately have "q \<in> set before" using lt by (metis nth_mem)
    with assms(1) show False by simp
  qed
  with qi show ?thesis by (auto simp: first_quoted_def)
qed

lemma to_lower_idem: "to_lower (to_lower c) = to_lower c"
  by (metis to_lower_to_upper to_upper_to_lower)

lemma map_to_upper_eq_iff:
  "map to_upper xs = map to_upper ys \<longleftrightarrow> map to_lower xs = map to_lower ys"
proof (induction xs arbitrary: ys)
  case Nil
  show ?case by simp
next
  case (Cons x xs)
  show ?case by (cases ys) (simp_all add: Cons.IH to_upper_eq_iff)
qed

lemma pre_ci_iff:
  "pre True w s \<longleftrightarrow>
     length w \<le> length s \<and> map to_lower (take (length w) s) = map to_lower w"
proof -
  have "canon True = to_upper" by (rule ext) (simp add: canon_def)
  then show ?thesis by (simp add: pre_iff map_to_upper_eq_iff)
qed

lemma contains_ci_iff_pre:
  "contains_ci s w \<longleftrightarrow> (\<exists>k \<le> length s. pre True w (drop k s))"
proof
  assume "contains_ci s w"
  then obtain before x rest where s: "s = before @ x @ rest"
    and x: "map to_lower x = map to_lower w"
    by (auto simp: contains_ci_def)
  from x have "length x = length w" by (metis length_map)
  with s x have "length before \<le> length s \<and> pre True w (drop (length before) s)"
    by (simp add: pre_ci_iff)
  then show "\<exists>k \<le> length s. pre True w (drop k s)" by blast
next
  assume "\<exists>k \<le> length s. pre True w (drop k s)"
  then obtain k where k: "k \<le> length s" "pre True w (drop k s)" by blast
  then have "map to_lower (take (length w) (drop k s)) = map to_lower w"
    by (simp add: pre_ci_iff)
  moreover have "s = take k s @ take (length w) (drop k s) @ drop (length w) (drop k s)"
    by (simp only: append_take_drop_id)
  ultimately show "contains_ci s w" unfolding contains_ci_def by blast
qed

lemma contains_ci_toLowerCase: "contains_ci (toLowerCase s) w \<longleftrightarrow> contains_ci s w"
proof
  assume "contains_ci (toLowerCase s) w"
  then obtain before x rest where m: "map to_lower s = before @ x @ rest"
    and x: "map to_lower x = map to_lower w"
    by (auto simp: contains_ci_def toLowerCase_def)
  let ?x' = "take (length x) (drop (length before) s)"
  have "map to_lower ?x' = take (length x) (drop (length before) (map to_lower s))"
    by (simp add: take_map drop_map)
  also have "\<dots> = x" by (simp add: m)
  finally have x': "map to_lower ?x' = x" .
  have "map to_lower (map to_lower ?x') = map to_lower ?x'" by (simp add: to_lower_idem)
  with x x' have "map to_lower ?x' = map to_lower w" by simp
  moreover have "s = take (length before) s @ ?x' @ drop (length x) (drop (length before) s)"
    by (simp only: append_take_drop_id)
  ultimately show "contains_ci s w" unfolding contains_ci_def by blast
next
  assume "contains_ci s w"
  then obtain before x rest where s: "s = before @ x @ rest"
    and x: "map to_lower x = map to_lower w"
    by (auto simp: contains_ci_def)
  have "map to_lower (map to_lower x) = map to_lower x" by (simp add: to_lower_idem)
  with s x have "toLowerCase s = map to_lower before @ map to_lower x @ map to_lower rest \<and>
      map to_lower (map to_lower x) = map to_lower w"
    by (simp add: toLowerCase_def)
  then show "contains_ci (toLowerCase s) w" unfolding contains_ci_def by blast
qed

lemma rx_test_words:
  assumes "ws \<noteq> []"
  shows "rx_test True (words ws) s \<longleftrightarrow> (\<exists>w \<in> set ws. contains_ci s w)"
proof -
  have "rx_run True s (words ws) (drop k s, []) = [] \<longleftrightarrow> (\<forall>w \<in> set ws. \<not> pre True w (drop k s))"
    for k
    using assms by (simp add: rx_run_words filter_empty_conv)
  then have "rx_test True (words ws) s \<longleftrightarrow> (\<exists>k \<le> length s. \<exists>w \<in> set ws. pre True w (drop k s))"
    by (simp add: rx_test_def rx_match_def rx_search_None_iff)
  then show ?thesis by (auto simp: contains_ci_iff_pre)
qed

section \<open>The component name and the guidance message\<close>

text \<open>
  Claim C4. \<open>extractComponentName\<close> returns the first single-quoted substring if there
  is one, otherwise the first double-quoted one, otherwise the first one between
  asterisks, otherwise nothing. A quoted substring is a non-empty text without the quote
  character, between two of them.
\<close>

theorem extractComponentName_precedence:
  "(extractComponentName s = Some x \<longleftrightarrow>
      first_quoted (CHR 0x27) s x
      \<or> (\<not> has_quoted (CHR 0x27) s \<and> first_quoted (CHR 0x22) s x)
      \<or> (\<not> has_quoted (CHR 0x27) s \<and> \<not> has_quoted (CHR 0x22) s \<and>
          first_quoted (CHR ''*'') s x))
   \<and> (extractComponentName s = None \<longleftrightarrow>
        \<not> has_quoted (CHR 0x27) s \<and> \<not> has_quoted (CHR 0x22) s \<and> \<not> has_quoted (CHR ''*'') s)"
  using extractComponentName_Some_iff [of s x] extractComponentName_None_iff [of s]
  by blast

text \<open>
  The theorem at \<open>inspect 'ABC_1'\<close>, and at two questions that hold a name between
  asterisks before a name between quotes: the quoted name is returned.
\<close>

theorem extractComponentName_precedence_witness:
  "extractComponentName (''inspect '' @ [CHR 0x27] @ ''ABC_1'' @ [CHR 0x27]) = Some ''ABC_1''
   \<and> extractComponentName (''show *M1* and '' @ [CHR 0x27] @ ''N2'' @ [CHR 0x27]) = Some ''N2''
   \<and> extractComponentName (''show *M1* and '' @ [CHR 0x22] @ ''N2'' @ [CHR 0x22]) = Some ''N2''
   \<and> extractComponentName ''show *M1* now'' = Some ''M1''
   \<and> extractComponentName ''show everything'' = None"
proof -
  have a: "first_quoted (CHR 0x27) (''inspect '' @ [CHR 0x27] @ ''ABC_1'' @ [CHR 0x27] @ []) ''ABC_1''"
    by (rule first_quoted_intro) simp_all
  have b: "first_quoted (CHR 0x27) (''show *M1* and '' @ [CHR 0x27] @ ''N2'' @ [CHR 0x27] @ []) ''N2''"
    by (rule first_quoted_intro) simp_all
  have c: "first_quoted (CHR 0x22) (''show *M1* and '' @ [CHR 0x22] @ ''N2'' @ [CHR 0x22] @ []) ''N2''"
    by (rule first_quoted_intro) simp_all
  have c': "\<not> has_quoted (CHR 0x27) (''show *M1* and '' @ [CHR 0x22] @ ''N2'' @ [CHR 0x22])"
    by (rule notI, drule has_quoted_in_set) simp
  have d: "first_quoted (CHR ''*'') (''show '' @ [CHR ''*''] @ ''M1'' @ [CHR ''*''] @ '' now'') ''M1''"
    by (rule first_quoted_intro) simp_all
  have d': "\<not> has_quoted (CHR 0x27) ''show *M1* now''" "\<not> has_quoted (CHR 0x22) ''show *M1* now''"
    by (rule notI, drule has_quoted_in_set, simp)+
  have e: "\<not> has_quoted (CHR 0x27) ''show everything''" "\<not> has_quoted (CHR 0x22) ''show everything''"
    "\<not> has_quoted (CHR ''*'') ''show everything''"
    by (rule notI, drule has_quoted_in_set, simp)+
  show ?thesis
    using a b c c' d d' e
      extractComponentName_precedence
        [of "''inspect '' @ [CHR 0x27] @ ''ABC_1'' @ [CHR 0x27]" "''ABC_1''"]
      extractComponentName_precedence
        [of "''show *M1* and '' @ [CHR 0x27] @ ''N2'' @ [CHR 0x27]" "''N2''"]
      extractComponentName_precedence
        [of "''show *M1* and '' @ [CHR 0x22] @ ''N2'' @ [CHR 0x22]" "''N2''"]
      extractComponentName_precedence [of "''show *M1* now''" "''M1''"]
      extractComponentName_precedence [of "''show everything''" "''M1''"]
    by simp
qed

text \<open>
  Claim C10. A question that contains one of the keywords component, part, inspect,
  defect, status, decision, image, in any case, and no quoted substring for any of the
  three delimiters, is answered by the guidance message, and no call leaves the module:
  the store is not queried and the model is not asked.
\<close>

theorem answer_guidance:
  assumes "\<exists>k \<in> set component_keywords. contains_ci question k"
    and "\<not> has_quoted (CHR 0x27) question"
    and "\<not> has_quoted (CHR 0x22) question"
    and "\<not> has_quoted (CHR ''*'') question"
  shows "answer w question = ([], Inr guidance_message)"
proof -
  have "component_keywords \<noteq> []" by (simp add: component_keywords_def)
  then have "rx_test True (words component_keywords) (toLowerCase question)"
    using assms(1) by (simp add: rx_test_words contains_ci_toLowerCase)
  moreover have "extractComponentName question = None"
    using assms(2-4) by (simp add: extractComponentName_None_iff)
  ultimately show ?thesis
    by (simp add: answer_def try_catch_def ret_def)
qed

theorem answer_guidance_witness:
  "(\<exists>k \<in> set component_keywords. contains_ci ''Show DEFECT counts'' k)
   \<and> \<not> has_quoted (CHR 0x27) ''Show DEFECT counts''
   \<and> \<not> has_quoted (CHR 0x22) ''Show DEFECT counts''
   \<and> \<not> has_quoted (CHR ''*'') ''Show DEFECT counts''
   \<and> answer ex_world ''Show DEFECT counts'' = ([], Inr guidance_message)"
proof -
  have "''Show DEFECT counts'' = ''Show '' @ ''DEFECT'' @ '' counts'' \<and>
      map to_lower ''DEFECT'' = map to_lower ''defect''"
    by (simp add: to_lower_def)
  then have "contains_ci ''Show DEFECT counts'' ''defect''"
    unfolding contains_ci_def by blast
  then have k: "\<exists>k \<in> set component_keywords. contains_ci ''Show DEFECT counts'' k"
    by (simp add: component_keywords_def)
  have q: "\<not> has_quoted (CHR 0x27) ''Show DEFECT counts''"
    "\<not> has_quoted (CHR 0x22) ''Show DEFECT counts''"
    "\<not> has_quoted (CHR ''*'') ''Show DEFECT counts''"
    by (rule notI, drule has_quoted_in_set, simp)+
  from answer_guidance [OF k q, of ex_world] k q show ?thesis by simp
qed

section \<open>The relative periods\<close>

lemma month_cases:
  assumes "0 \<le> m" "m \<le> (11 :: int)"
  obtains "m = 0" | "m = 1" | "m = 2" | "m = 3" | "m = 4" | "m = 5" | "m = 6" | "m = 7"
    | "m = 8" | "m = 9" | "m = 10" | "m = 11"
proof -
  from assms have "m = 0 \<or> m = 1 \<or> m = 2 \<or> m = 3 \<or> m = 4 \<or> m = 5 \<or> m = 6 \<or> m = 7 \<or>
      m = 8 \<or> m = 9 \<or> m = 10 \<or> m = 11"
    by arith
  with that show thesis by blast
qed

lemma div_step:
  fixes a k :: int
  assumes "0 < k"
  shows "(a + 1) div k = a div k + (if (a + 1) mod k = 0 then 1 else 0)"
proof (cases "a mod k + 1 < k")
  case True
  have r: "0 \<le> a mod k" using assms by simp
  have e: "a + 1 = k * (a div k) + (a mod k + 1)" by simp
  have "(a + 1) div k = a div k"
    by (rule int_div_pos_eq [OF e]) (use r True in simp_all)
  moreover have "(a + 1) mod k = a mod k + 1"
    by (rule int_mod_pos_eq [OF e]) (use r True in simp_all)
  ultimately show ?thesis using r by simp
next
  case False
  have "a mod k < k" using assms by simp
  with False have k: "a mod k + 1 = k" by simp
  have "a + 1 = k * (a div k) + (a mod k + 1)" by simp
  with k have e: "a + 1 = k * (a div k + 1) + 0" by (simp add: algebra_simps)
  have "(a + 1) div k = a div k + 1"
    by (rule int_div_pos_eq [OF e]) (use assms in simp_all)
  moreover have "(a + 1) mod k = 0"
    by (rule int_mod_pos_eq [OF e]) (use assms in simp_all)
  ultimately show ?thesis by simp
qed

lemma year_mod:
  fixes y :: int
  shows "(y - 1968) mod 4 = y mod 4"
    and "(y - 1900) mod 100 = y mod 100"
    and "(y - 1600) mod 400 = y mod 400"
proof -
  have "(y - 1968) mod 4 = (y + 4 * (- 492)) mod 4" by simp
  then show "(y - 1968) mod 4 = y mod 4" by (simp only: mod_mult_self2)
  have "(y - 1900) mod 100 = (y + 100 * (- 19)) mod 100" by simp
  then show "(y - 1900) mod 100 = y mod 100" by (simp only: mod_mult_self2)
  have "(y - 1600) mod 400 = (y + 400 * (- 4)) mod 400" by simp
  then show "(y - 1600) mod 400 = y mod 400" by (simp only: mod_mult_self2)
qed

lemma year_dvd:
  fixes y :: int
  shows "y mod 400 = 0 \<Longrightarrow> y mod 100 = 0" and "y mod 100 = 0 \<Longrightarrow> y mod 4 = 0"
proof -
  have a: "(100 :: int) dvd 400" "(4 :: int) dvd 100" by simp_all
  show "y mod 400 = 0 \<Longrightarrow> y mod 100 = 0"
    using dvd_trans [OF a(1), of y] by (simp add: mod_eq_0_iff_dvd)
  show "y mod 100 = 0 \<Longrightarrow> y mod 4 = 0"
    using dvd_trans [OF a(2), of y] by (simp add: mod_eq_0_iff_dvd)
qed

lemma DayFromYear_Suc:
  "DayFromYear (y + 1) = DayFromYear y + (if InLeapYear y then 366 else 365)"
proof -
  have a: "(y + 1 - 1969) div 4 = (y - 1969) div 4 + (if y mod 4 = 0 then 1 else 0)"
    using div_step [of 4 "y - 1969"] year_mod(1) [of y] by (simp add: algebra_simps)
  have b: "(y + 1 - 1901) div 100 = (y - 1901) div 100 + (if y mod 100 = 0 then 1 else 0)"
    using div_step [of 100 "y - 1901"] year_mod(2) [of y] by (simp add: algebra_simps)
  have c: "(y + 1 - 1601) div 400 = (y - 1601) div 400 + (if y mod 400 = 0 then 1 else 0)"
    using div_step [of 400 "y - 1601"] year_mod(3) [of y] by (simp add: algebra_simps)
  define p4 p100 p400 where "p4 \<longleftrightarrow> y mod 4 = 0" and "p100 \<longleftrightarrow> y mod 100 = 0"
    and "p400 \<longleftrightarrow> y mod 400 = 0"
  have imp: "p400 \<Longrightarrow> p100" "p100 \<Longrightarrow> p4"
    using year_dvd [of y] by (simp_all add: p4_def p100_def p400_def)
  have leap: "InLeapYear y \<longleftrightarrow> p4 \<and> (\<not> p100 \<or> p400)"
    by (simp add: InLeapYear_def p4_def p100_def p400_def)
  have "DayFromYear (y + 1) =
      DayFromYear y + 365 + (if p4 then 1 else 0) - (if p100 then 1 else 0) +
      (if p400 then 1 else 0)"
    unfolding DayFromYear_def a b c p4_def [symmetric] p100_def [symmetric] p400_def [symmetric]
    by (cases p4; cases p100; cases p400) simp_all
  then show ?thesis
    unfolding leap using imp by (cases p4; cases p100; cases p400) simp_all
qed

lemma MakeDay_next_month:
  assumes "0 \<le> m" "m \<le> 11"
  shows "MakeDay y (m + 1) 1 = MakeDay y m 1 + DaysInMonth y m"
  using assms
proof (cases m rule: month_cases)
  case 12
  have "DayFromYear (y + 1) = DayFromYear y + (if InLeapYear y then 366 else 365)"
    by (rule DayFromYear_Suc)
  with 12 show ?thesis
    by (simp add: MakeDay_def month_start_def DaysInMonth_def)
qed (simp_all add: MakeDay_def month_start_def DaysInMonth_def)

lemma MakeDay_previous_month:
  assumes "0 \<le> m" "m \<le> 11"
  shows "MakeDay y (m - 1) d =
           (case previous_month y m of (py, pm) \<Rightarrow> MakeDay py pm d)"
  using assms
  by (cases m rule: month_cases) (simp_all add: MakeDay_def previous_month_def)

lemma previous_month_range:
  assumes "0 \<le> m" "m \<le> 11"
  shows "0 \<le> snd (previous_month y m) \<and> snd (previous_month y m) \<le> 11"
  using assms by (simp add: previous_month_def)

lemma MakeDay_date: "MakeDay y m d = MakeDay y m 1 + d - 1"
  by (simp add: MakeDay_def Let_def)

lemma MakeDay_last_of_previous:
  assumes "0 \<le> m" "m \<le> 11"
  shows "MakeDay y m 0 =
           (case previous_month y m of (py, pm) \<Rightarrow> MakeDay py pm (DaysInMonth py pm))"
proof (cases "m = 0")
  case True
  have "DayFromYear (y - 1 + 1) = DayFromYear (y - 1) + (if InLeapYear (y - 1) then 366 else 365)"
    by (rule DayFromYear_Suc)
  with True show ?thesis
    by (simp add: previous_month_def MakeDay_def month_start_def DaysInMonth_def)
next
  case False
  with assms have r: "0 \<le> m - 1" "m - 1 \<le> 11" by simp_all
  from MakeDay_next_month [OF r, of y] have "MakeDay y m 1 = MakeDay y (m - 1) 1 + DaysInMonth y (m - 1)"
    by simp
  moreover have "MakeDay y m 0 = MakeDay y m 1 - 1" "MakeDay y (m - 1) (DaysInMonth y (m - 1)) =
      MakeDay y (m - 1) 1 + DaysInMonth y (m - 1) - 1"
    by (simp_all add: MakeDay_def Let_def)
  ultimately show ?thesis using False by (simp add: previous_month_def)
qed

lemma toLowerCase_periods:
  "toLowerCase ''today'' = ''today''" "toLowerCase ''yesterday'' = ''yesterday''"
  "toLowerCase ''this week'' = ''this week''" "toLowerCase ''last week'' = ''last week''"
  "toLowerCase ''this month'' = ''this month''" "toLowerCase ''last month'' = ''last month''"
  by (simp_all add: toLowerCase_def to_lower_def)

lemma new_Date_year: "y < 0 \<or> 99 < y \<Longrightarrow>
  new_Date z y m d h mi s ms = UTC z (MakeDate (MakeDay y m d) (MakeTime h mi s ms))"
  by (auto simp: new_Date_def)

text \<open>
  Claim C7, as amended. For every time zone of the host and every reading of the clock
  in month \<open>m\<close> (0 to 11, as \<open>getMonth\<close> gives it) of year \<open>y\<close> (outside 0 to 99,
  which the constructor of \<open>Date\<close> reads as 1900 + \<open>y\<close>), the range of
  \<open>last month\<close> runs from the instant the host gives to the local time 00:00:00.000 on
  day 1 of the previous month to the instant it gives to 23:59:59.999 on its last day
  (day \<open>DaysInMonth\<close>), both bounds in the range. Where the zone does not skip the
  local time, the bound shows this very local time on the clock of the host.
\<close>

theorem getDateFilter_last_month:
  assumes "0 \<le> lt_month now" "lt_month now \<le> 11"
    and "lt_year now < 0 \<or> 99 < lt_year now"
  shows "(case previous_month (lt_year now) (lt_month now) of
            (py, pm) \<Rightarrow>
              (let first = MakeDate (MakeDay py pm 1) (MakeTime 0 0 0 0);
                   last = MakeDate (MakeDay py pm (DaysInMonth py pm)) (MakeTime 23 59 59 999)
               in getDateFilter z now ''last month'' =
                    Some \<lparr>gte = UTC z first, lte = UTC z last\<rparr>
                \<and> (LocalTime z (UTC z first) = first \<longrightarrow>
                     map_option (LocalTime z) (map_option gte (getDateFilter z now ''last month''))
                       = Some first)
                \<and> (LocalTime z (UTC z last) = last \<longrightarrow>
                     map_option (LocalTime z) (map_option lte (getDateFilter z now ''last month''))
                       = Some last)))"
proof -
  obtain py pm where p: "previous_month (lt_year now) (lt_month now) = (py, pm)"
    by (cases "previous_month (lt_year now) (lt_month now)")
  have a: "MakeDay (lt_year now) (lt_month now - 1) 1 = MakeDay py pm 1"
    using MakeDay_previous_month [OF assms(1,2), of "lt_year now" 1] p by simp
  have b: "MakeDay (lt_year now) (lt_month now) 0 = MakeDay py pm (DaysInMonth py pm)"
    using MakeDay_last_of_previous [OF assms(1,2), of "lt_year now"] p by simp
  have "getDateFilter z now ''last month'' =
      Some \<lparr>gte = new_Date z (lt_year now) (lt_month now - 1) 1 0 0 0 0,
            lte = new_Date z (lt_year now) (lt_month now) 0 23 59 59 999\<rparr>"
    by (simp add: getDateFilter_def Let_def toLowerCase_periods)
  then have "getDateFilter z now ''last month'' =
      Some \<lparr>gte = UTC z (MakeDate (MakeDay py pm 1) (MakeTime 0 0 0 0)),
            lte = UTC z (MakeDate (MakeDay py pm (DaysInMonth py pm)) (MakeTime 23 59 59 999))\<rparr>"
    using assms(3) a b by (simp add: new_Date_year)
  then show ?thesis
    by (simp add: p Let_def)
qed

text \<open>
  The theorem in UTC on 15 March 2025: the range is 1 February 2025, 00:00:00.000, to
  28 February 2025, 23:59:59.999, in milliseconds since the epoch, and both bounds show
  these times.
\<close>

theorem getDateFilter_last_month_witness:
  "0 \<le> lt_month ex_clock \<and> lt_month ex_clock \<le> 11
   \<and> (lt_year ex_clock < 0 \<or> 99 < lt_year ex_clock)
   \<and> previous_month (lt_year ex_clock) (lt_month ex_clock) = (2025, 1)
   \<and> DaysInMonth 2025 1 = 28
   \<and> MakeDate (MakeDay 2025 1 1) (MakeTime 0 0 0 0) = 1738368000000
   \<and> MakeDate (MakeDay 2025 1 28) (MakeTime 23 59 59 999) = 1740787199999
   \<and> LocalTime ex_utc (UTC ex_utc 1738368000000) = 1738368000000
   \<and> LocalTime ex_utc (UTC ex_utc 1740787199999) = 1740787199999
   \<and> getDateFilter ex_utc ex_clock ''last month'' =
       Some \<lparr>gte = 1738368000000, lte = 1740787199999\<rparr>
   \<and> map_option (LocalTime ex_utc) (map_option gte (getDateFilter ex_utc ex_clock ''last month''))
       = Some 1738368000000
   \<and> map_option (LocalTime ex_utc) (map_option lte (getDateFilter ex_utc ex_clock ''last month''))
       = Some 1740787199999"
proof -
  have h: "0 \<le> lt_month ex_clock" "lt_month ex_clock \<le> 11"
    "lt_year ex_clock < 0 \<or> 99 < lt_year ex_clock"
    by (simp_all add: ex_clock_def)
  have p: "previous_month (lt_year ex_clock) (lt_month ex_clock) = (2025, 1)"
    by (simp add: previous_month_def ex_clock_def)
  have d: "DaysInMonth 2025 1 = 28" by (simp add: DaysInMonth_def InLeapYear_def)
  have v: "MakeDate (MakeDay 2025 1 1) (MakeTime 0 0 0 0) = 1738368000000"
    "MakeDate (MakeDay 2025 1 28) (MakeTime 23 59 59 999) = 1740787199999"
    by (simp_all add: MakeDate_def MakeDay_def MakeTime_def DayFromYear_def InLeapYear_def
        month_start_def msPerDay_def)
  have u: "LocalTime ex_utc t = t" "UTC ex_utc t = t" for t
    by (simp_all add: LocalTime_def UTC_def ex_utc_def)
  from getDateFilter_last_month [OF h, of ex_utc] h p d v u show ?thesis
    by (simp add: Let_def)
qed

text \<open>
  The claim as it stands fails in a zone that starts daylight saving time at midnight of
  the first of a month: on 15 November 2017 the lower bound of \<open>last month\<close> is the
  instant that shows 01:00:00.000 on 1 October, one hour after the local time
  00:00:00.000, which that day does not have.
\<close>

theorem getDateFilter_last_month_counterexample:
  "MakeDate (MakeDay 2017 9 1) (MakeTime 0 0 0 0) = 1506816000000
   \<and> map_option gte (getDateFilter ex_dst ex_clock_november ''last month'') = Some 1506830400000
   \<and> LocalTime ex_dst 1506830400000 = 1506819600000"
  by (simp add: getDateFilter_def Let_def toLowerCase_periods new_Date_def UTC_def
      LocalTime_def ex_dst_def ex_clock_november_def MakeDate_def MakeDay_def MakeTime_def
      DayFromYear_def InLeapYear_def month_start_def msPerDay_def)

lemma ms_of_day: "(k * 86400000) mod 1000 = (0 :: int)"
proof -
  have "k * 86400000 = (k * 86400) * 1000" by simp
  then show ?thesis by (simp only: mod_mult_self2_is_0)
qed

lemma week_day: "(d - (d + 4) mod 7 + 4) mod 7 = (0 :: int)"
proof -
  have "d - (d + 4) mod 7 + 4 = (d + 4) - (d + 4) mod 7" by simp
  also have "\<dots> = (d + 4) div 7 * 7" by (rule minus_mod_eq_div_mult)
  finally show ?thesis by (simp only: mod_mult_self2_is_0)
qed

text \<open>
  Claim C8, as amended. For every time zone of the host and every reading of the clock
  (in a year outside 0 to 99): the ranges of \<open>today\<close>, \<open>this week\<close> and
  \<open>this month\<close> end at the instant the host gives to 23:59:59.999 of the current day,
  not at the current instant; today begins at the instant of 00:00:00.000 of the current
  day and this month at that of its day 1. The range of \<open>last month\<close> ends at the
  instant of the local time one millisecond before this month begins. Where the zone
  does not skip 00:00:00.000 of the current day, the range of \<open>yesterday\<close> ends at the
  instant of the local time one millisecond before it, and this week begins at
  00:00:00.000 of a Sunday (day of the week 0) at most six days back; where the zone does
  not skip that time either, the range of \<open>last week\<close> ends at the instant of the local
  time one millisecond before it. Such an instant is one millisecond before the instant
  of the local time that follows whenever the zone reads both with one offset. Each of
  the six periods has a range, and both bounds belong to it.
\<close>

theorem getDateFilter_bounds:
  assumes "lt_year now < 0 \<or> 99 < lt_year now"
  shows "(let y = lt_year now; m = lt_month now; d = lt_date now;
              startOfDay = MakeDate (MakeDay y m d) (MakeTime 0 0 0 0);
              endOfDay = MakeDate (MakeDay y m d) (MakeTime 23 59 59 999);
              startOfMonth = MakeDate (MakeDay y m 1) (MakeTime 0 0 0 0);
              startOfWeek = startOfDay - (MakeDay y m d + 4) mod 7 * msPerDay
          in getDateFilter z now ''today'' =
               Some \<lparr>gte = UTC z startOfDay, lte = UTC z endOfDay\<rparr>
           \<and> map_option lte (getDateFilter z now ''this week'') = Some (UTC z endOfDay)
           \<and> getDateFilter z now ''this month'' =
               Some \<lparr>gte = UTC z startOfMonth, lte = UTC z endOfDay\<rparr>
           \<and> map_option lte (getDateFilter z now ''last month'') = Some (UTC z (startOfMonth - 1))
           \<and> (LocalTime z (UTC z startOfDay) = startOfDay \<longrightarrow>
                getDateFilter z now ''yesterday'' =
                  Some \<lparr>gte = UTC z (startOfDay - msPerDay), lte = UTC z (startOfDay - 1)\<rparr>
                \<and> map_option gte (getDateFilter z now ''this week'') = Some (UTC z startOfWeek)
                \<and> (LocalTime z (UTC z startOfWeek) = startOfWeek \<longrightarrow>
                     getDateFilter z now ''last week'' =
                       Some \<lparr>gte = UTC z (startOfWeek - 7 * msPerDay),
                             lte = UTC z (startOfWeek - 1)\<rparr>))
           \<and> (startOfWeek div msPerDay + 4) mod 7 = 0
           \<and> startOfWeek \<le> startOfDay \<and> startOfDay \<le> startOfWeek + 6 * msPerDay
           \<and> (\<forall>t. tza_local z (t - 1) = tza_local z t \<longrightarrow> UTC z (t - 1) + 1 = UTC z t)
           \<and> list_all (\<lambda>p. getDateFilter z now p \<noteq> None) relative_periods)"
proof -
  let ?y = "lt_year now" and ?m = "lt_month now" and ?d = "lt_date now"
  define D where "D = MakeDay ?y ?m ?d"
  define M where "M = MakeDay ?y ?m 1"
  define wd where "wd = (D + 4) mod 7"
  define S where "S = D * 86400000"
  define W where "W = (D - wd) * 86400000"
  have nd: "new_Date z ?y mo dt h mi s ms =
      UTC z (MakeDay ?y mo dt * 86400000 + (h * 3600000 + mi * 60000 + s * 1000 + ms))"
    for mo dt h mi s ms
    using assms by (simp add: new_Date_year MakeDate_def MakeTime_def msPerDay_def)
  have M0: "MakeDay ?y ?m 0 = M - 1"
    by (simp add: M_def MakeDay_def Let_def)
  have wd: "0 \<le> wd" "wd \<le> 6" by (simp_all add: wd_def)
  have WS: "W = S - wd * 86400000" by (simp add: W_def S_def algebra_simps)
  have Sdiv: "S div 86400000 = D" by (simp add: S_def)
  have Wdiv: "W div 86400000 = D - wd" by (simp add: W_def)
  have Smod: "S mod 1000 = 0" unfolding S_def by (rule ms_of_day)
  have Wmod: "W mod 1000 = 0" unfolding W_def by (rule ms_of_day)
  have today: "getDateFilter z now ''today'' =
      Some \<lparr>gte = UTC z S, lte = UTC z (S + 86399999)\<rparr>"
    by (simp add: getDateFilter_def Let_def toLowerCase_periods nd D_def S_def)
  have thisweek_lte: "map_option lte (getDateFilter z now ''this week'') =
      Some (UTC z (S + 86399999))"
    by (simp add: getDateFilter_def Let_def toLowerCase_periods nd D_def S_def)
  have thismonth: "getDateFilter z now ''this month'' =
      Some \<lparr>gte = UTC z (M * 86400000), lte = UTC z (S + 86399999)\<rparr>"
    by (simp add: getDateFilter_def Let_def toLowerCase_periods nd D_def M_def S_def)
  have lastmonth: "map_option lte (getDateFilter z now ''last month'') =
      Some (UTC z (M * 86400000 - 1))"
    by (simp add: getDateFilter_def Let_def toLowerCase_periods nd M0 algebra_simps)
  have yesterday: "getDateFilter z now ''yesterday'' =
      Some \<lparr>gte = UTC z (S - 86400000), lte = UTC z (S - 1)\<rparr>"
    if "LocalTime z (UTC z S) = S"
    using that Smod
    by (simp add: getDateFilter_def Let_def toLowerCase_periods nd D_def [symmetric]
        S_def [symmetric] setDate_by_def setMilliseconds_def msPerDay_def)
  have sow: "setDate_by z (UTC z S) (- getDay z (UTC z S)) = UTC z W"
    if "LocalTime z (UTC z S) = S"
    using that by (simp add: setDate_by_def getDay_def msPerDay_def Sdiv WS wd_def)
  have thisweek_gte: "map_option gte (getDateFilter z now ''this week'') = Some (UTC z W)"
    if "LocalTime z (UTC z S) = S"
    using sow [OF that]
    by (simp add: getDateFilter_def Let_def toLowerCase_periods nd D_def [symmetric]
        S_def [symmetric])
  have lastweek: "getDateFilter z now ''last week'' =
      Some \<lparr>gte = UTC z (W - 604800000), lte = UTC z (W - 1)\<rparr>"
    if "LocalTime z (UTC z S) = S" "LocalTime z (UTC z W) = W"
  proof -
    have "getDateFilter z now ''last week'' =
        Some \<lparr>gte = setDate_by z (UTC z W) (- 7), lte = setMilliseconds z (UTC z W) (- 1)\<rparr>"
      using sow [OF that(1)]
      by (simp add: getDateFilter_def Let_def toLowerCase_periods nd D_def [symmetric]
          S_def [symmetric])
    then show ?thesis
      using that(2) Wmod by (simp add: setDate_by_def setMilliseconds_def msPerDay_def)
  qed
  have sunday: "(W div 86400000 + 4) mod 7 = 0"
    unfolding Wdiv wd_def by (rule week_day)
  have order: "W \<le> S" "S \<le> W + 518400000"
    using wd by (simp_all add: WS)
  have adj: "\<forall>t. tza_local z (t - 1) = tza_local z t \<longrightarrow> UTC z (t - 1) + 1 = UTC z t"
    by (simp add: UTC_def)
  have all: "list_all (\<lambda>p. getDateFilter z now p \<noteq> None) relative_periods"
    by (simp add: relative_periods_def getDateFilter_def Let_def toLowerCase_periods)
  have S': "MakeDate (MakeDay ?y ?m ?d) (MakeTime 0 0 0 0) = S"
    and E': "MakeDate (MakeDay ?y ?m ?d) (MakeTime 23 59 59 999) = S + 86399999"
    and M': "MakeDate (MakeDay ?y ?m 1) (MakeTime 0 0 0 0) = M * 86400000"
    and W': "S - (MakeDay ?y ?m ?d + 4) mod 7 * msPerDay = W"
    by (simp_all add: MakeDate_def MakeTime_def msPerDay_def S_def D_def M_def WS wd_def)
  show ?thesis
    unfolding Let_def S' E' M' W'
    using today thisweek_lte thismonth lastmonth yesterday thisweek_gte lastweek sunday order
      adj all
    by (simp add: msPerDay_def)
qed

text \<open>
  The theorem in UTC on Saturday 15 March 2025, 10:30:00.000: the range of \<open>today\<close>
  ends at 23:59:59.999 of that day, the range of \<open>yesterday\<close> one millisecond before
  00:00:00.000 of that day, and the range of \<open>last week\<close> one millisecond before
  00:00:00.000 of Sunday 9 March.
\<close>

theorem getDateFilter_bounds_witness:
  "(lt_year ex_clock < 0 \<or> 99 < lt_year ex_clock)
   \<and> LocalTime ex_utc (UTC ex_utc 1741996800000) = 1741996800000
   \<and> LocalTime ex_utc (UTC ex_utc 1741478400000) = 1741478400000
   \<and> getDateFilter ex_utc ex_clock ''today'' =
       Some \<lparr>gte = 1741996800000, lte = 1742083199999\<rparr>
   \<and> getDateFilter ex_utc ex_clock ''yesterday'' =
       Some \<lparr>gte = 1741910400000, lte = 1741996799999\<rparr>
   \<and> getDateFilter ex_utc ex_clock ''last week'' =
       Some \<lparr>gte = 1740873600000, lte = 1741478399999\<rparr>"
proof -
  have h: "lt_year ex_clock < 0 \<or> 99 < lt_year ex_clock"
    by (simp add: ex_clock_def)
  have e: "MakeDate (MakeDay (lt_year ex_clock) (lt_month ex_clock) (lt_date ex_clock))
        (MakeTime 23 59 59 999) = 1742083199999"
    "MakeDate (MakeDay (lt_year ex_clock) (lt_month ex_clock) (lt_date ex_clock))
        (MakeTime 0 0 0 0) = 1741996800000"
    "1741996800000 -
       (MakeDay (lt_year ex_clock) (lt_month ex_clock) (lt_date ex_clock) + 4) mod 7 * msPerDay
       = 1741478400000"
    by (simp_all add: ex_clock_def MakeDate_def MakeDay_def MakeTime_def DayFromYear_def
        InLeapYear_def month_start_def msPerDay_def)
  have u: "LocalTime ex_utc t = t" "UTC ex_utc t = t" for t
    by (simp_all add: LocalTime_def UTC_def ex_utc_def)
  from getDateFilter_bounds [OF h, of ex_utc] h show ?thesis
    unfolding Let_def e u by (simp add: msPerDay_def u)
qed

text \<open>
  The claim as it stands fails for \<open>today\<close> (and with it for \<open>this week\<close> and
  \<open>this month\<close>): in UTC at 10:30:00.000 on 15 March 2025, the instant 1742034600000,
  the upper bound is 23:59:59.999 of the day. It also fails for \<open>yesterday\<close> in a zone
  that skips the midnight of the current day: on 1 October 2017, a day that starts at
  01:00:00.000, the upper bound of \<open>yesterday\<close> is the instant that shows
  01:59:59.999 of 1 October.
\<close>

theorem getDateFilter_today_counterexample:
  "LocalTime ex_utc 1742034600000 = local_value ex_clock
   \<and> map_option lte (getDateFilter ex_utc ex_clock ''today'') = Some 1742083199999
   \<and> MakeDate (MakeDay 2017 9 1) (MakeTime 0 0 0 0) = 1506816000000
   \<and> map_option (LocalTime ex_dst)
       (map_option lte (getDateFilter ex_dst ex_clock_october ''yesterday''))
       = Some 1506823199999"
  by (simp add: local_value_def getDateFilter_def Let_def toLowerCase_periods new_Date_def
      setMilliseconds_def UTC_def LocalTime_def ex_utc_def ex_dst_def ex_clock_def
      ex_clock_october_def MakeDate_def MakeDay_def MakeTime_def DayFromYear_def
      InLeapYear_def month_start_def msPerDay_def)

section \<open>The date condition of \<open>parseQuery\<close>\<close>

lemma rx_run_group_words:
  assumes "ws \<noteq> []"
  shows "rx_run ci inp (Group n (words ws)) (s, g) =
           map (\<lambda>w. (drop (length w) s, (n, take (length w) s) # g)) (filter (\<lambda>w. pre ci w s) ws)"
proof -
  have "length s - length (drop (length w) s) = length w" if "w \<in> set (filter (\<lambda>w. pre ci w s) ws)"
    for w
  proof -
    from that have "length w \<le> length s" by (simp add: pre_iff)
    then show ?thesis by simp
  qed
  then show ?thesis
    using assms by (simp add: rx_run_words comp_def)
qed

lemma relative_periods_lower: "w \<in> set relative_periods \<Longrightarrow> toLowerCase w = w"
  by (auto simp: relative_periods_def toLowerCase_periods)

lemma relative_match_None:
  "rx_match True rx_relativeDate s = None \<longleftrightarrow> \<not> (\<exists>w \<in> set relative_periods. contains_ci s w)"
proof -
  have ne: "relative_periods \<noteq> []" by (simp add: relative_periods_def)
  have "rx_run True s rx_relativeDate (drop k s, []) = [] \<longleftrightarrow>
      (\<forall>w \<in> set relative_periods. \<not> pre True w (drop k s))" for k
    by (simp add: rx_relativeDate_def rx_run_group_words [OF ne] filter_empty_conv
        del: rx_run.simps)
  then have "rx_match True rx_relativeDate s = None \<longleftrightarrow>
      \<not> (\<exists>k \<le> length s. \<exists>w \<in> set relative_periods. pre True w (drop k s))"
    by (simp add: rx_match_def rx_search_None_iff)
  then show ?thesis by (auto simp: contains_ci_iff_pre)
qed

lemma relative_match_Some:
  assumes "rx_match True rx_relativeDate s = Some m"
  shows "\<exists>w \<in> set relative_periods. toLowerCase (group m 1) = w \<and> contains_ci s w"
proof -
  have ne: "relative_periods \<noteq> []" by (simp add: relative_periods_def)
  from assms have "rx_search True s rx_relativeDate s = Some m" by (simp add: rx_match_def)
  from rx_search_Some [OF this] obtain k s' g rest where k: "k \<le> length s"
    and run: "rx_run True s rx_relativeDate (drop k s, []) = (s', g) # rest"
    and m: "m = (take (length s - k - length s') (drop k s), g)"
    by blast
  let ?t = "drop k s"
  from run have "map (\<lambda>w. (drop (length w) ?t, [(1, take (length w) ?t)]))
      (filter (\<lambda>w. pre True w ?t) relative_periods) = (s', g) # rest"
    by (simp add: rx_relativeDate_def rx_run_group_words [OF ne] del: rx_run.simps)
  then obtain w ws' where f: "filter (\<lambda>w. pre True w ?t) relative_periods = w # ws'"
    and g: "g = [(1, take (length w) ?t)]"
    by (auto simp: map_eq_Cons_conv)
  from f have "w \<in> set (filter (\<lambda>w. pre True w ?t) relative_periods)" by simp
  then have w: "w \<in> set relative_periods" and p: "pre True w ?t" by simp_all
  from p have "map to_lower (take (length w) ?t) = map to_lower w" by (simp add: pre_ci_iff)
  with relative_periods_lower [OF w] have "toLowerCase (take (length w) ?t) = w"
    by (simp add: toLowerCase_def)
  moreover have "group m 1 = take (length w) ?t" using m g by (simp add: group_def capture_def)
  moreover have "contains_ci s w" using k p by (auto simp: contains_ci_iff_pre)
  ultimately show ?thesis using w by auto
qed

lemma toLowerCase_idem: "toLowerCase (toLowerCase p) = toLowerCase p"
  by (simp add: toLowerCase_def comp_def to_lower_idem)

lemma getDateFilter_lower: "getDateFilter z now (toLowerCase p) = getDateFilter z now p"
  by (simp only: getDateFilter_def toLowerCase_idem)

lemma getDateFilter_defined: "w \<in> set relative_periods \<Longrightarrow> getDateFilter z now w \<noteq> None"
  by (auto simp: relative_periods_def getDateFilter_def Let_def toLowerCase_periods)

lemma parseQuery_general:
  "isGeneralQuery (analyzeQuery q) \<or> isComponentList (analyzeQuery q) \<Longrightarrow>
   parseQuery z dp now q = no_conditions"
  by (simp add: parseQuery_def Let_def)

lemma parseQuery_relative_date:
  assumes "\<not> isGeneralQuery (analyzeQuery q)" "\<not> isComponentList (analyzeQuery q)"
    and "rx_match True rx_relativeDate q = Some m"
  shows "q_date (parseQuery z dp now q) = getDateFilter z now (group m 1)"
  using assms
  by (simp add: parseQuery_def Let_def split: option.splits)

text \<open>
  Claim C3, as amended. Let a question contain one of the relative periods, in any case,
  whatever else it contains (an absolute date, for one) and wherever. If the question is
  a general or a component-list question, \<open>parseQuery\<close> returns no condition at all;
  otherwise its date condition is the range \<open>getDateFilter\<close> gives for a relative
  period the question contains, whatever \<open>new Date\<close> would make of an absolute date:
  the absolute date contributes no constraint.
\<close>

theorem parseQuery_relative_wins:
  assumes "\<exists>w \<in> set relative_periods. contains_ci question w"
  shows "if isGeneralQuery (analyzeQuery question) \<or> isComponentList (analyzeQuery question)
         then parseQuery z dp now question = no_conditions
         else (\<exists>w \<in> set relative_periods.
                 contains_ci question w \<and>
                 q_date (parseQuery z dp now question) = getDateFilter z now w \<and>
                 getDateFilter z now w \<noteq> None)"
proof (cases "isGeneralQuery (analyzeQuery question) \<or> isComponentList (analyzeQuery question)")
  case True
  then show ?thesis by (simp add: parseQuery_general)
next
  case False
  from assms have "rx_match True rx_relativeDate question \<noteq> None"
    by (simp add: relative_match_None)
  then obtain m where m: "rx_match True rx_relativeDate question = Some m" by auto
  from relative_match_Some [OF m] obtain w where w: "w \<in> set relative_periods"
    "toLowerCase (group m 1) = w" "contains_ci question w" by blast
  from False m have "q_date (parseQuery z dp now question) = getDateFilter z now (group m 1)"
    by (simp add: parseQuery_relative_date)
  also have "\<dots> = getDateFilter z now w"
    using getDateFilter_lower [of z now "group m 1"] w(2) by simp
  finally have "q_date (parseQuery z dp now question) = getDateFilter z now w" .
  with w getDateFilter_defined [OF w(1), of z now] False show ?thesis by auto
qed

text \<open>
  The theorem at the question \<open>reports today 24_02_2025\<close>, which holds the keyword
  and an absolute date: the date condition is the range of \<open>today\<close>.
\<close>

theorem parseQuery_relative_wins_witness:
  "(\<exists>w \<in> set relative_periods. contains_ci ''reports today 24_02_2025'' w)
   \<and> rx_test True rx_absoluteDate ''reports today 24_02_2025''
   \<and> \<not> isGeneralQuery (analyzeQuery ''reports today 24_02_2025'')
   \<and> \<not> isComponentList (analyzeQuery ''reports today 24_02_2025'')
   \<and> q_date (parseQuery ex_utc (\<lambda>s. Some 0) ex_clock ''reports today 24_02_2025'') \<noteq> None
   \<and> q_date (parseQuery ex_utc (\<lambda>s. Some 0) ex_clock ''reports today 24_02_2025'') =
       getDateFilter ex_utc ex_clock ''today''"
proof -
  have "''reports today 24_02_2025'' = ''reports '' @ ''today'' @ '' 24_02_2025''" by simp
  then have "contains_ci ''reports today 24_02_2025'' ''today''"
    unfolding contains_ci_def by blast
  then have h: "\<exists>w \<in> set relative_periods. contains_ci ''reports today 24_02_2025'' w"
    by (simp add: relative_periods_def)
  have a: "rx_test True rx_absoluteDate ''reports today 24_02_2025''"
    by code_simp
  have g: "\<not> (isGeneralQuery (analyzeQuery ''reports today 24_02_2025'') \<or>
      isComponentList (analyzeQuery ''reports today 24_02_2025''))"
    by code_simp
  have e: "q_date (parseQuery ex_utc (\<lambda>s. Some 0) ex_clock ''reports today 24_02_2025'') =
      getDateFilter ex_utc ex_clock ''today''"
    by code_simp
  from parseQuery_relative_wins [OF h, of ex_utc "\<lambda>s. Some 0" ex_clock] g
  have "q_date (parseQuery ex_utc (\<lambda>s. Some 0) ex_clock ''reports today 24_02_2025'') \<noteq> None"
    by auto
  with h a g e show ?thesis by simp
qed

text \<open>
  The claim as it stands fails for a question that is also a component-list question:
  \<open>part count today 24_02_2025\<close> holds the keyword and an absolute date, and
  \<open>parseQuery\<close> returns no date condition. So it does for the general question
  \<open>what data today 24_02_2025\<close>, which \<open>queryMongoDB\<close> answers by a plain find
  on the conditions of \<open>parseQuery\<close>.
\<close>

theorem parseQuery_relative_counterexample:
  "rx_test True rx_relativeDate ''part count today 24_02_2025''
   \<and> rx_test True rx_absoluteDate ''part count today 24_02_2025''
   \<and> q_date (parseQuery ex_utc (\<lambda>s. Some 0) ex_clock ''part count today 24_02_2025'') = None
   \<and> rx_test True rx_relativeDate ''what data today 24_02_2025''
   \<and> rx_test True rx_absoluteDate ''what data today 24_02_2025''
   \<and> needsAggregation (analyzeQuery ''what data today 24_02_2025'') = False
   \<and> isComponentList (analyzeQuery ''what data today 24_02_2025'') = False
   \<and> q_date (parseQuery ex_utc (\<lambda>s. Some 0) ex_clock ''what data today 24_02_2025'') = None
   \<and> getDateFilter ex_utc ex_clock ''today'' =
       Some \<lparr>gte = 1741996800000, lte = 1742083199999\<rparr>"
  by code_simp

section \<open>The pipeline\<close>

text \<open>
  \<open>getDefectInfo\<close> returns a catalog, the empty one after an error, unless the read of
  the collection is rejected with \<open>null\<close> or \<open>undefined\<close>: then its handler
  throws while it reads \<open>error.message\<close> for the log.
\<close>

lemma getDefectInfo_returns:
  assumes "find_defects w \<notin> {Inl ThrownNull, Inl ThrownUndefined}"
  shows "\<exists>defectMap. getDefectInfo w = ([FindDefects], Inr defectMap)"
proof (cases "find_defects w")
  case (Inl e)
  with assms obtain v where "e = Thrown v" by (cases e) auto
  with Inl show ?thesis
    by (simp add: getDefectInfo_def try_catch_def bind_def call_def ret_def read_message_def)
next
  case (Inr defects)
  then show ?thesis
    by (simp add: getDefectInfo_def try_catch_def bind_def call_def ret_def)
qed

lemma queryReports_trace:
  assumes "find_defects w \<notin> {Inl ThrownNull, Inl ThrownUndefined}"
  shows "fst (queryReports w query) =
     [FindDefects,
      if needsAggregation (analyzeQuery query) \<or> isComponentList (analyzeQuery query)
      then AggregateReports (aggregation_pipeline (analyzeQuery query))
      else FindReports (parseQuery (host_zone w) (date_parse w) (clock w) query)]"
proof -
  obtain dm where dm: "getDefectInfo w = ([FindDefects], Inr dm)"
    using getDefectInfo_returns [OF assms] by blast
  show ?thesis
    by (simp add: queryReports_def dm bind_def call_def ret_def handleAggregationQuery_def
        Let_def split: sum.splits)
qed

lemma queryReports_empty:
  assumes nn: "find_defects w \<notin> {Inl ThrownNull, Inl ThrownUndefined}"
    and "(if needsAggregation (analyzeQuery query) \<or> isComponentList (analyzeQuery query)
            then aggregate_reports w (aggregation_pipeline (analyzeQuery query))
            else find_reports w (parseQuery (host_zone w) (date_parse w) (clock w) query)) = Inr []"
  shows "snd (queryReports w query) = Inr no_reports_message"
proof -
  obtain dm where dm: "getDefectInfo w = ([FindDefects], Inr dm)"
    using getDefectInfo_returns [OF nn] by blast
  show ?thesis
  proof (cases "needsAggregation (analyzeQuery query) \<or> isComponentList (analyzeQuery query)")
    case True
    with assms(2) have "aggregate_reports w (aggregation_pipeline (analyzeQuery query)) = Inr []"
      by simp
    with True show ?thesis
      by (simp add: queryReports_def dm bind_def call_def ret_def handleAggregationQuery_def
          Let_def)
  next
    case False
    with assms(2) have "find_reports w (parseQuery (host_zone w) (date_parse w) (clock w) query) = Inr []"
      by simp
    with False show ?thesis
      by (simp add: queryReports_def dm bind_def call_def ret_def Let_def)
  qed
qed

lemma queryComponentDetails_empty:
  "find_components w name = Inr [] \<Longrightarrow>
   queryComponentDetails w name = ([FindComponents name], Inr (empty_collection_message name))"
  by (simp add: queryComponentDetails_def try_catch_def bind_def call_def ret_def)

lemma queryMongoDB_connected:
  assumes "truthy_string (MONGODB_URI w)" "new_MongoClient w = None" "connect w = None"
  shows "queryMongoDB w query =
           try_finally
             (try_catch
                (bind ([Connect], Inr ())
                   (\<lambda>connected.
                      case extractComponentName query of
                        None \<Rightarrow> queryReports w query
                      | Some name \<Rightarrow>
                          if name = [] then queryReports w query
                          else queryComponentDetails w name))
                (\<lambda>error.
                   bind (read_message w error)
                     (\<lambda>msg. ret (''Error querying database: '' @ to_text msg))))
             (call Close (done_or (close w)))"
  using assms by (simp add: queryMongoDB_def bind_def call_def done_or_def Let_def)

text \<open>
  Claim C2, as amended. With the store reachable and the client closed without error: a
  question without a delimited component name whose query on the reports (the
  aggregation, or the plain find) is run (the catalog of defects was read, or its read
  failed otherwise than with \<open>null\<close> or \<open>undefined\<close>) and yields no record is
  answered by the literal
  \<open>No production reports found matching your query.\<close>; a question with a delimited
  component name whose collection yields no record is answered by
  \<open>No data found in collection '<name>'. The collection exists but is empty.\<close>
\<close>

theorem queryMongoDB_empty_results:
  assumes "truthy_string (MONGODB_URI w)" "new_MongoClient w = None" "connect w = None"
    and "close w = None"
  shows "(extractComponentName query = None \<longrightarrow>
            find_defects w \<notin> {Inl ThrownNull, Inl ThrownUndefined} \<longrightarrow>
            (if needsAggregation (analyzeQuery query) \<or> isComponentList (analyzeQuery query)
             then aggregate_reports w (aggregation_pipeline (analyzeQuery query))
             else find_reports w (parseQuery (host_zone w) (date_parse w) (clock w) query)) = Inr [] \<longrightarrow>
            snd (queryMongoDB w query) = Inr no_reports_message)
       \<and> (\<forall>name. extractComponentName query = Some name \<longrightarrow>
            find_components w name = Inr [] \<longrightarrow>
            snd (queryMongoDB w query) = Inr (empty_collection_message name))"
proof (intro conjI allI impI)
  assume n: "extractComponentName query = None"
    and nn: "find_defects w \<notin> {Inl ThrownNull, Inl ThrownUndefined}"
    and e: "(if needsAggregation (analyzeQuery query) \<or> isComponentList (analyzeQuery query)
             then aggregate_reports w (aggregation_pipeline (analyzeQuery query))
             else find_reports w (parseQuery (host_zone w) (date_parse w) (clock w) query)) = Inr []"
  obtain tr where "queryReports w query = (tr, Inr no_reports_message)"
    using queryReports_empty [OF nn e] by (cases "queryReports w query") auto
  then show "snd (queryMongoDB w query) = Inr no_reports_message"
    using n assms(4)
    by (simp add: queryMongoDB_connected [OF assms(1-3)] try_finally_def try_catch_def
        bind_def call_def done_or_def)
next
  fix name
  assume s: "extractComponentName query = Some name" and e: "find_components w name = Inr []"
  from s have "name \<noteq> []" by (rule extractComponentName_nonempty)
  then show "snd (queryMongoDB w query) = Inr (empty_collection_message name)"
    using s assms(4) queryComponentDetails_empty [OF e]
    by (simp add: queryMongoDB_connected [OF assms(1-3)] try_finally_def try_catch_def
        bind_def call_def done_or_def)
qed

text \<open>
  The theorem in the world where every query yields no document, at a question without a
  component name and at a question with the component name \<open>X1\<close>.
\<close>

theorem queryMongoDB_empty_results_witness:
  "truthy_string (MONGODB_URI ex_world) \<and> new_MongoClient ex_world = None
   \<and> connect ex_world = None \<and> close ex_world = None
   \<and> extractComponentName ''show reports'' = None
   \<and> find_defects ex_world \<notin> {Inl ThrownNull, Inl ThrownUndefined}
   \<and> snd (queryMongoDB ex_world ''show reports'') = Inr no_reports_message
   \<and> extractComponentName (''status of '' @ [CHR 0x27] @ ''X1'' @ [CHR 0x27]) = Some ''X1''
   \<and> find_components ex_world ''X1'' = Inr []
   \<and> snd (queryMongoDB ex_world (''status of '' @ [CHR 0x27] @ ''X1'' @ [CHR 0x27])) =
       Inr (empty_collection_message ''X1'')"
proof -
  have h: "truthy_string (MONGODB_URI ex_world)" "new_MongoClient ex_world = None"
    "connect ex_world = None" "close ex_world = None"
    by (simp_all add: ex_world_def)
  have n: "extractComponentName ''show reports'' = None"
    unfolding extractComponentName_None_iff
    by (intro conjI; rule notI, drule has_quoted_in_set, simp)
  have e: "(if needsAggregation (analyzeQuery ''show reports'') \<or>
               isComponentList (analyzeQuery ''show reports'')
            then aggregate_reports ex_world (aggregation_pipeline (analyzeQuery ''show reports''))
            else find_reports ex_world
                   (parseQuery (host_zone ex_world) (date_parse ex_world) (clock ex_world)
                      ''show reports'')) = Inr []"
    by (simp add: ex_world_def)
  have "first_quoted (CHR 0x27) (''status of '' @ [CHR 0x27] @ ''X1'' @ [CHR 0x27] @ []) ''X1''"
    by (rule first_quoted_intro) simp_all
  then have s: "extractComponentName (''status of '' @ [CHR 0x27] @ ''X1'' @ [CHR 0x27]) = Some ''X1''"
    by (simp add: extractComponentName_Some_iff)
  have c: "find_components ex_world ''X1'' = Inr []" by (simp add: ex_world_def)
  have nn: "find_defects ex_world \<notin> {Inl ThrownNull, Inl ThrownUndefined}" by (simp add: ex_world_def)
  note t1 = queryMongoDB_empty_results [OF h, of "''show reports''"]
  note t2 = queryMongoDB_empty_results
    [OF h, of "''status of '' @ [CHR 0x27] @ ''X1'' @ [CHR 0x27]"]
  from t1 n nn e have r1: "snd (queryMongoDB ex_world ''show reports'') = Inr no_reports_message"
    by blast
  from t2 s c have r2:
    "snd (queryMongoDB ex_world (''status of '' @ [CHR 0x27] @ ''X1'' @ [CHR 0x27])) =
       Inr (empty_collection_message ''X1'')"
    by blast
  from h n nn s c r1 r2 show ?thesis by simp
qed

text \<open>
  The claim as it stands fails on the component-collection path: the collection of
  \<open>X1\<close> yields no record, and the answer is not the literal of the reports.
\<close>

theorem queryMongoDB_component_counterexample:
  "find_components ex_world ''X1'' = Inr []
   \<and> snd (queryMongoDB ex_world (''status of '' @ [CHR 0x27] @ ''X1'' @ [CHR 0x27])) =
       Inr (''No data found in collection '' @ [CHR 0x27] @ ''X1'' @ [CHR 0x27] @
            ''. The collection exists but is empty.'')
   \<and> ''No data found in collection '' @ [CHR 0x27] @ ''X1'' @ [CHR 0x27] @
       ''. The collection exists but is empty.'' \<noteq> no_reports_message"
  by code_simp

text \<open>
  Claim C6. When \<open>isNGQuery\<close> holds the pipeline is: match \<open>ng_parts\<close> existing and
  greater than 0, sort by \<open>ng_parts\<close> descending, limit 10, whatever the other flags
  are. A question with \<open>isNGQuery\<close> that is routed to the aggregation (it needs an
  aggregation or lists components, and names no component; the store is reached and the
  read of the catalog of defects is not rejected with \<open>null\<close> or \<open>undefined\<close>)
  makes \<open>queryMongoDB\<close> run exactly this pipeline on the reports.
\<close>

theorem ng_pipeline_priority:
  assumes "isNGQuery (analyzeQuery query)"
    and "needsAggregation (analyzeQuery query) \<or> isComponentList (analyzeQuery query)"
    and "extractComponentName query = None"
    and "truthy_string (MONGODB_URI w)" "new_MongoClient w = None" "connect w = None"
    and "find_defects w \<notin> {Inl ThrownNull, Inl ThrownUndefined}"
  shows "(\<forall>queryAnalysis. isNGQuery queryAnalysis \<longrightarrow>
            aggregation_pipeline queryAnalysis =
              [Match [(''ng_parts'', ExistsGt 0)], Sort ''ng_parts'' (- 1), Limit 10])
       \<and> fst (queryMongoDB w query) =
           [Connect, FindDefects,
            AggregateReports [Match [(''ng_parts'', ExistsGt 0)], Sort ''ng_parts'' (- 1), Limit 10],
            Close]"
proof
  show "\<forall>queryAnalysis. isNGQuery queryAnalysis \<longrightarrow>
      aggregation_pipeline queryAnalysis =
        [Match [(''ng_parts'', ExistsGt 0)], Sort ''ng_parts'' (- 1), Limit 10]"
    by (simp add: aggregation_pipeline_def)
next
  have "fst (queryReports w query) =
      [FindDefects,
       AggregateReports [Match [(''ng_parts'', ExistsGt 0)], Sort ''ng_parts'' (- 1), Limit 10]]"
    using assms(1,2) by (simp add: queryReports_trace [OF assms(7)] aggregation_pipeline_def)
  then obtain r where r: "queryReports w query =
      ([FindDefects,
        AggregateReports [Match [(''ng_parts'', ExistsGt 0)], Sort ''ng_parts'' (- 1), Limit 10]], r)"
    by (cases "queryReports w query") auto
  show "fst (queryMongoDB w query) =
      [Connect, FindDefects,
       AggregateReports [Match [(''ng_parts'', ExistsGt 0)], Sort ''ng_parts'' (- 1), Limit 10],
       Close]"
    using assms(3) r
    by (cases r; cases "close w")
       (simp_all add: queryMongoDB_connected [OF assms(4-6)] try_finally_def try_catch_def
          bind_def call_def ret_def done_or_def read_message_def throw_def
          split: js_error.splits)
qed

text \<open>The theorem at the question \<open>show batches with most ng parts\<close>.\<close>

theorem ng_pipeline_priority_witness:
  "isNGQuery (analyzeQuery ''show batches with most ng parts'')
   \<and> needsAggregation (analyzeQuery ''show batches with most ng parts'')
   \<and> extractComponentName ''show batches with most ng parts'' = None
   \<and> find_defects ex_world \<notin> {Inl ThrownNull, Inl ThrownUndefined}
   \<and> fst (queryMongoDB ex_world ''show batches with most ng parts'') =
       [Connect, FindDefects,
        AggregateReports [Match [(''ng_parts'', ExistsGt 0)], Sort ''ng_parts'' (- 1), Limit 10],
        Close]"
proof -
  have a: "isNGQuery (analyzeQuery ''show batches with most ng parts'')"
    "needsAggregation (analyzeQuery ''show batches with most ng parts'')"
    by code_simp+
  have n: "extractComponentName ''show batches with most ng parts'' = None"
    unfolding extractComponentName_None_iff
    by (intro conjI; rule notI, drule has_quoted_in_set, simp)
  have h: "truthy_string (MONGODB_URI ex_world)" "new_MongoClient ex_world = None"
    "connect ex_world = None" "find_defects ex_world \<notin> {Inl ThrownNull, Inl ThrownUndefined}"
    by (simp_all add: ex_world_def)
  from a(2) have b: "needsAggregation (analyzeQuery ''show batches with most ng parts'') \<or>
      isComponentList (analyzeQuery ''show batches with most ng parts'')" by simp
  from ng_pipeline_priority [OF a(1) b n h] a n h(4) show ?thesis by simp
qed

section \<open>The messages of \<open>queryComponentDetails\<close>\<close>

text \<open>
  The answer of \<open>queryComponentDetails\<close> by the outcome of the find on the collection:
  no document; an \<open>Error\<close>, by what its message holds; a thrown value whose message is
  no string, at which the handler itself throws (as it does at a thrown \<open>null\<close> or
  \<open>undefined\<close>).
\<close>

lemma queryComponentDetails_by_outcome:
  "(find_components w name = Inr [] \<longrightarrow>
      queryComponentDetails w name =
        ([FindComponents name], Inr (empty_collection_message name)))
   \<and> (\<forall>msg. find_components w name = Inl (Error msg) \<longrightarrow>
         queryComponentDetails w name =
           ([FindComponents name],
            Inr (if str_includes msg ''collection name must be a string''
                 then invalid_name_message name
                 else if str_includes msg ''ns not found'' \<or> str_includes msg ''Collection''
                 then no_collection_message name
                 else component_error_message name msg)))
   \<and> (\<forall>v. find_components w name = Inl (Thrown v) \<longrightarrow> (\<forall>msg. v \<noteq> JStr msg) \<longrightarrow>
         queryComponentDetails w name =
           ([FindComponents name], Inl (Error (TypeError_message w v ''includes''))))
   \<and> (find_components w name = Inl ThrownNull \<longrightarrow>
         queryComponentDetails w name =
           ([FindComponents name], Inl (Error (TypeError_message w JNull ''message''))))
   \<and> (find_components w name = Inl ThrownUndefined \<longrightarrow>
         queryComponentDetails w name =
           ([FindComponents name], Inl (Error (TypeError_message w JUndefined ''message''))))"
proof (intro conjI allI impI)
  assume "find_components w name = Inr []"
  then show "queryComponentDetails w name =
      ([FindComponents name], Inr (empty_collection_message name))"
    by (simp add: queryComponentDetails_empty)
next
  fix msg assume "find_components w name = Inl (Error msg)"
  then show "queryComponentDetails w name =
      ([FindComponents name],
       Inr (if str_includes msg ''collection name must be a string''
            then invalid_name_message name
            else if str_includes msg ''ns not found'' \<or> str_includes msg ''Collection''
            then no_collection_message name
            else component_error_message name msg))"
    by (simp add: queryComponentDetails_def try_catch_def bind_def call_def ret_def
        read_message_def message_includes_def)
next
  fix v assume "find_components w name = Inl (Thrown v)" "\<forall>msg. v \<noteq> JStr msg"
  then show "queryComponentDetails w name =
      ([FindComponents name], Inl (Error (TypeError_message w v ''includes'')))"
    by (cases v)
       (simp_all add: queryComponentDetails_def try_catch_def bind_def call_def ret_def
          throw_def read_message_def message_includes_def)
next
  assume "find_components w name = Inl ThrownNull"
  then show "queryComponentDetails w name =
      ([FindComponents name], Inl (Error (TypeError_message w JNull ''message'')))"
    by (simp add: queryComponentDetails_def try_catch_def bind_def call_def ret_def
        throw_def read_message_def)
next
  assume "find_components w name = Inl ThrownUndefined"
  then show "queryComponentDetails w name =
      ([FindComponents name], Inl (Error (TypeError_message w JUndefined ''message'')))"
    by (simp add: queryComponentDetails_def try_catch_def bind_def call_def ret_def
        throw_def read_message_def)
qed

lemma component_messages_distinct:
  "empty_collection_message name \<noteq> no_collection_message name"
  "empty_collection_message name \<noteq> invalid_name_message name"
  "empty_collection_message name \<noteq> component_error_message name msg"
  "no_collection_message name \<noteq> invalid_name_message name"
  "no_collection_message name \<noteq> component_error_message name msg"
  "invalid_name_message name \<noteq> component_error_message name msg"
  by (simp_all add: empty_collection_message_def no_collection_message_def
      invalid_name_message_def component_error_message_def)

text \<open>
  Claim C9, where the code departs from it. The claim asks for a message of its own when
  the name resolves to no collection, and the handler has one,
  \<open>No collection found for component\<close>, for an error of the store whose message holds
  \<open>ns not found\<close> or \<open>Collection\<close>. But \<open>queryComponentDetails\<close> tells the cases
  apart by the outcome of the find alone, and a find that yields no document is answered
  by the message that the collection exists but is empty, whether or not there is such a
  collection: so it is in the world \<open>ex_world\<close>, where the find on the name
  \<open>NoSuchPart\<close> yields no document and throws nothing, which is the answer of the
  MongoDB driver for a collection that does not exist.
\<close>

theorem queryComponentDetails_unknown_collection:
  "find_components ex_world ''NoSuchPart'' = Inr []
   \<and> queryComponentDetails ex_world ''NoSuchPart'' =
       ([FindComponents ''NoSuchPart''],
        Inr (''No data found in collection '' @ [CHR 0x27] @ ''NoSuchPart'' @ [CHR 0x27] @
             ''. The collection exists but is empty.''))
   \<and> snd (queryComponentDetails ex_world ''NoSuchPart'') \<noteq>
       Inr (no_collection_message ''NoSuchPart'')"
proof -
  have f: "find_components ex_world ''NoSuchPart'' = Inr []" by (simp add: ex_world_def)
  with queryComponentDetails_by_outcome [of ex_world "''NoSuchPart''"]
  have q: "queryComponentDetails ex_world ''NoSuchPart'' =
      ([FindComponents ''NoSuchPart''], Inr (empty_collection_message ''NoSuchPart''))"
    by blast
  have d: "empty_collection_message ''NoSuchPart'' \<noteq> no_collection_message ''NoSuchPart''"
    by (rule component_messages_distinct)
  from f q d show ?thesis by (simp add: empty_collection_message_def)
qed

section \<open>The entry point\<close>

lemma try_catch_throws:
  "try_catch m h = (tr, Inl e) \<Longrightarrow> \<exists>e0 tr'. h e0 = (tr', Inl e)"
  by (auto simp: try_catch_def split: prod.splits sum.splits)

lemma try_finally_throws:
  "try_finally m fin = (tr, Inl e) \<Longrightarrow> snd fin = Inl e \<or> snd m = Inl e"
  by (auto simp: try_finally_def split: prod.splits sum.splits)

lemma log_handler_throws:
  "bind (read_message w e0) (\<lambda>msg. ret (f msg)) = (tr, Inl e) \<Longrightarrow>
   \<exists>v. e = Error (TypeError_message w v ''message'')"
  by (auto simp: bind_def read_message_def ret_def throw_def split: js_error.splits)

text \<open>
  What \<open>queryMongoDB\<close> throws is what the closing of the client threw, or the
  \<open>TypeError\<close> of its own handler at a thrown \<open>null\<close> or \<open>undefined\<close>.
\<close>

lemma queryMongoDB_throws:
  assumes "queryMongoDB w query = (tr, Inl e)"
  shows "close w = Some e \<or> (\<exists>v. e = Error (TypeError_message w v ''message''))"
proof -
  have "\<exists>body. queryMongoDB w query =
      try_finally
        (try_catch body
           (\<lambda>error. bind (read_message w error)
              (\<lambda>msg. ret (''Error querying database: '' @ to_text msg))))
        (if truthy_string (MONGODB_URI w) \<and> new_MongoClient w = None
         then call Close (done_or (close w))
         else ret ())"
    unfolding queryMongoDB_def by (rule exI) (rule refl)
  then obtain body where q: "queryMongoDB w query =
      try_finally
        (try_catch body
           (\<lambda>error. bind (read_message w error)
              (\<lambda>msg. ret (''Error querying database: '' @ to_text msg))))
        (if truthy_string (MONGODB_URI w) \<and> new_MongoClient w = None
         then call Close (done_or (close w))
         else ret ())"
    by blast
  from try_finally_throws [OF assms [unfolded q]]
  show ?thesis
  proof
    assume "snd (if truthy_string (MONGODB_URI w) \<and> new_MongoClient w = None
         then call Close (done_or (close w))
         else ret ()) = Inl e"
    then have "close w = Some e"
      by (auto simp: call_def ret_def done_or_def split: if_splits option.splits)
    then show ?thesis ..
  next
    assume "snd (try_catch body
           (\<lambda>error. bind (read_message w error)
              (\<lambda>msg. ret (''Error querying database: '' @ to_text msg)))) = Inl e"
    then obtain tr' where "try_catch body
           (\<lambda>error. bind (read_message w error)
              (\<lambda>msg. ret (''Error querying database: '' @ to_text msg))) = (tr', Inl e)"
      by (cases "try_catch body
           (\<lambda>error. bind (read_message w error)
              (\<lambda>msg. ret (''Error querying database: '' @ to_text msg)))") auto
    from try_catch_throws [OF this] obtain e0 tr'' where
      "bind (read_message w e0) (\<lambda>msg. ret (''Error querying database: '' @ to_text msg)) =
         (tr'', Inl e)"
      by blast
    then have "\<exists>v. e = Error (TypeError_message w v ''message'')" by (rule log_handler_throws)
    then show ?thesis ..
  qed
qed

lemma has_message_Error: "has_message e \<longleftrightarrow> (\<exists>m. e = Error m)"
  by (auto simp: has_message_def split: js_error.splits jsval.splits)

text \<open>
  \<open>testGeminiAPI\<close> returns, unless the call of the model is rejected with \<open>null\<close> or
  \<open>undefined\<close>.
\<close>

lemma testGeminiAPI_outcome:
  "(\<exists>tr b. testGeminiAPI w = (tr, Inr b)) \<or>
   (\<exists>tr v. testGeminiAPI w = (tr, Inl (Error (TypeError_message w v ''message''))))"
  by (cases "generateContent w TestPrompt")
     (auto simp: testGeminiAPI_def try_catch_def bind_def call_def ret_def throw_def
        read_message_def split: js_error.splits)

text \<open>
  Claim C5, as amended. Let whatever the closing of the client and the call of the model
  throw be an object with a message that is a string, as an \<open>Error\<close> is. Then,
  whatever the store, the catalog and the model do, and whatever else is thrown, the
  entry point returns a text: it ends in a returned value, never in a thrown error.
  Without the condition, the entry point returns a text or throws the \<open>TypeError\<close> of
  its own handler. The initialization is what can throw: the error of the connection,
  the error of the test of the model, or the \<open>TypeError\<close> of a handler that reads
  the message of a thrown \<open>null\<close> or \<open>undefined\<close>; otherwise it returns the entry
  point.
\<close>

theorem answer_returns_text:
  "(throws_errors w \<longrightarrow> (\<exists>tr t. answer w question = (tr, Inr t)))
   \<and> (\<exists>tr. (\<exists>t. answer w question = (tr, Inr t))
           \<or> (\<exists>v p. answer w question = (tr, Inl (Error (TypeError_message w v p)))))
   \<and> (snd (initializeProductionAgent w) = Inr answer
      \<or> snd (initializeProductionAgent w) = Inl (Error ''MongoDB connection failed'')
      \<or> snd (initializeProductionAgent w) =
          Inl (Error ''Gemini API test failed. Please check your API key.'')
      \<or> (\<exists>v. snd (initializeProductionAgent w) =
               Inl (Error (TypeError_message w v ''message''))))"
proof -
  define guided where "guided \<longleftrightarrow>
      rx_test True (words component_keywords) (toLowerCase question) \<and>
      \<not> truthy_string (extractComponentName question)"
  define prompt where "prompt = (\<lambda>dbResults.
      if truthy_string (extractComponentName question)
      then ComponentPrompt question dbResults (clock_iso w)
      else ProductionPrompt question dbResults (clock_iso w))"
  define body where "body =
      (if guided then ret guidance_message
       else bind (queryMongoDB w question)
              (\<lambda>dbResults.
                 bind (call (GenerateContent (prompt dbResults))
                         (generateContent w (prompt dbResults)))
                   (\<lambda>response. ([], response))))"
  define handler where "handler = (\<lambda>error.
      bind (read_message w error)
        (\<lambda>msg.
           bind (message_includes w msg ''API_KEY_INVALID'')
             (\<lambda>keyInvalid.
                bind (if keyInvalid then ret True
                      else message_includes w msg ''API key not valid'')
                  (\<lambda>invalid.
                     if invalid then ret invalid_key_message
                     else ret fallback_message))))"
  have a: "answer w question = try_catch body handler"
    by (simp add: answer_def body_def handler_def guided_def prompt_def Let_def)
  have h: "\<exists>t. handler (Error m) = ([], Inr t)" for m
    by (simp add: handler_def bind_def read_message_def message_includes_def ret_def)
  have hk: "(\<exists>t. handler e = ([], Inr t)) \<or>
      (\<exists>v p. handler e = ([], Inl (Error (TypeError_message w v p))))" for e
  proof (cases e)
    case (Thrown v)
    show ?thesis
    proof (cases "\<exists>m. v = JStr m")
      case True
      with Thrown h show ?thesis by auto
    next
      case False
      with Thrown have "handler e = ([], Inl (Error (TypeError_message w v ''includes'')))"
        by (cases v)
           (simp_all add: handler_def bind_def read_message_def message_includes_def ret_def
              throw_def)
      then show ?thesis by blast
    qed
  next
    case ThrownNull
    then have "handler e = ([], Inl (Error (TypeError_message w JNull ''message'')))"
      by (simp add: handler_def bind_def read_message_def throw_def)
    then show ?thesis by blast
  next
    case ThrownUndefined
    then have "handler e = ([], Inl (Error (TypeError_message w JUndefined ''message'')))"
      by (simp add: handler_def bind_def read_message_def throw_def)
    then show ?thesis by blast
  qed
  obtain tr r where b: "body = (tr, r)" by (cases body)
  have part1: "throws_errors w \<longrightarrow> (\<exists>tr t. answer w question = (tr, Inr t))"
  proof
    assume te: "throws_errors w"
    show "\<exists>tr t. answer w question = (tr, Inr t)"
    proof (cases r)
      case (Inr t)
      with a b show ?thesis by (simp add: try_catch_def)
    next
      case (Inl e)
      have "has_message e"
      proof (cases guided)
        case True
        with b Inl show ?thesis by (simp add: body_def ret_def)
      next
        case False
        obtain tr1 r1 where q: "queryMongoDB w question = (tr1, r1)"
          by (cases "queryMongoDB w question")
        show ?thesis
        proof (cases r1)
          case e1: (Inl e1)
          with b Inl False q have "e = e1" by (simp add: body_def bind_def)
          with q e1 have "queryMongoDB w question = (tr1, Inl e)" by simp
          from queryMongoDB_throws [OF this] te show ?thesis
            by (auto simp: throws_errors_def has_message_Error)
        next
          case db: (Inr dbResults)
          show ?thesis
          proof (cases "generateContent w (prompt dbResults)")
            case g: (Inl e')
            with b Inl False q db have "e = e'" by (simp add: body_def bind_def call_def)
            with g te show ?thesis by (auto simp: throws_errors_def)
          next
            case g: (Inr response)
            with b Inl False q db have "response = Inl e"
              by (simp add: body_def bind_def call_def)
            with g te show ?thesis by (auto simp: throws_errors_def)
          qed
        qed
      qed
      then obtain m where "e = Error m" by (auto simp: has_message_Error)
      with h [of m] a b Inl show ?thesis by (auto simp: try_catch_def)
    qed
  qed
  have part2: "\<exists>tr. (\<exists>t. answer w question = (tr, Inr t))
      \<or> (\<exists>v p. answer w question = (tr, Inl (Error (TypeError_message w v p))))"
  proof (cases r)
    case (Inr t)
    with a b have "answer w question = (tr, Inr t)" by (simp add: try_catch_def)
    then show ?thesis by blast
  next
    case (Inl e)
    from hk [of e] show ?thesis
    proof
      assume "\<exists>t. handler e = ([], Inr t)"
      then obtain t where "handler e = ([], Inr t)" ..
      with a b Inl have "answer w question = (tr, Inr t)" by (simp add: try_catch_def)
      then show ?thesis by blast
    next
      assume "\<exists>v p. handler e = ([], Inl (Error (TypeError_message w v p)))"
      then obtain v p where "handler e = ([], Inl (Error (TypeError_message w v p)))" by blast
      with a b Inl have "answer w question = (tr, Inl (Error (TypeError_message w v p)))"
        by (simp add: try_catch_def)
      then show ?thesis by blast
    qed
  qed
  let ?A = "try_catch
      (if \<not> truthy_string (MONGODB_URI w)
       then throw (Error ''MONGODB_URI is not set in environment variables'')
       else
         bind ([], done_or (new_MongoClient w))
           (\<lambda>client.
              bind (call Connect (done_or (connect w)))
                (\<lambda>connected.
                   bind (getDefectInfo w)
                     (\<lambda>defectMap. call Close (done_or (close w))))))
      (\<lambda>error.
         bind (read_message w error)
           (\<lambda>msg. throw (Error ''MongoDB connection failed'')))"
  obtain trA rA where A: "?A = (trA, rA)" by (cases ?A)
  have rA: "rA = Inl (Error ''MongoDB connection failed'')
      \<or> (\<exists>v. rA = Inl (Error (TypeError_message w v ''message''))) \<or> (\<exists>u. rA = Inr u)"
  proof (cases rA)
    case (Inl e)
    from try_catch_throws [OF A [unfolded Inl]] obtain e0 tr' where
      "bind (read_message w e0) (\<lambda>msg. throw (Error ''MongoDB connection failed'')) =
         (tr', (Inl e :: js_error + unit))"
      by blast
    then have "e = Error ''MongoDB connection failed'' \<or>
        (\<exists>v. e = Error (TypeError_message w v ''message''))"
      by (auto simp: bind_def read_message_def ret_def throw_def split: js_error.splits)
    with Inl show ?thesis by auto
  next
    case (Inr u)
    then show ?thesis by simp
  qed
  have i: "initializeProductionAgent w =
      bind ?A (\<lambda>tested.
        bind (testGeminiAPI w)
          (\<lambda>apiTest.
             if \<not> apiTest
             then throw (Error ''Gemini API test failed. Please check your API key.'')
             else ret answer))"
    by (simp add: initializeProductionAgent_def)
  have part3: "snd (initializeProductionAgent w) = Inr answer
      \<or> snd (initializeProductionAgent w) = Inl (Error ''MongoDB connection failed'')
      \<or> snd (initializeProductionAgent w) =
          Inl (Error ''Gemini API test failed. Please check your API key.'')
      \<or> (\<exists>v. snd (initializeProductionAgent w) =
               Inl (Error (TypeError_message w v ''message'')))"
    using rA testGeminiAPI_outcome [of w] unfolding i A
    by (auto simp: bind_def throw_def ret_def)
  show ?thesis by (intro conjI part1 part2 part3)
qed

text \<open>
  The theorem in a world where the connection to the store is rejected with \<open>null\<close>
  and the model is never reached with a valid key: the handler of \<open>queryMongoDB\<close>
  throws a \<open>TypeError\<close>, the client is closed, and the entry point returns its
  fallback text.
\<close>

theorem answer_returns_text_witness:
  "throws_errors (ex_world\<lparr>connect := Some ThrownNull\<rparr>)
   \<and> answer (ex_world\<lparr>connect := Some ThrownNull\<rparr>) ''show reports'' =
       ([Connect, Close], Inr fallback_message)"
proof -
  let ?w = "ex_world\<lparr>connect := Some ThrownNull\<rparr>"
  have te: "throws_errors ?w"
    by (simp add: throws_errors_def ex_world_def)
  with answer_returns_text [of ?w "''show reports''"]
  obtain tr t where r: "answer ?w ''show reports'' = (tr, Inr t)" by blast
  have "fst (answer ?w ''show reports'') = [Connect, Close]"
    by code_simp
  with r have tr: "tr = [Connect, Close]" by simp
  have "snd (answer ?w ''show reports'') = Inr fallback_message"
    by code_simp
  with r have "t = fallback_message" by simp
  with te r tr show ?thesis by simp
qed

text \<open>
  The claim as it stands fails when the call of the model is rejected with a value that
  has no message, a string for one: the handler of the entry point calls
  \<open>includes\<close> on \<open>undefined\<close>, and the \<open>TypeError\<close> reaches the caller.
\<close>

theorem answer_throws_counterexample:
  "snd (answer (ex_world\<lparr>generateContent := (\<lambda>p. Inl (Thrown JUndefined))\<rparr>) ''show reports'') =
     Inl (Error (''Cannot read properties of undefined (reading '' @ [CHR 0x27] @
                 ''includes'' @ [CHR 0x27] @ '')''))"
  by code_simp

end
